theory Spec2Isabelle
  imports Main
begin

section \<open>Data model of the indexer agent\<close>

text \<open>
  The agent (\<^verbatim>\<open>packages/indexer-agent/src/agent.ts\<close>) is written in TypeScript.
  Objects are modelled as records, enums as datatypes, JavaScript numbers that hold
  epochs, versions and timestamps as \<open>int\<close>, and a value of type
  \<^verbatim>\<open>string | undefined\<close> as \<open>string option\<close>. Exceptions are values of
  the type \<open>error\<close>; a function that may throw returns \<open>error + 'a\<close>.
\<close>

text \<open>
  \<^verbatim>\<open>SubgraphDeploymentID\<close> comes from the library \<^verbatim>\<open>@graphprotocol/common-ts\<close>.
  It is a JavaScript object holding a 32-byte hash with two renderings, \<open>bytes32\<close>
  (hex) and \<open>ipfsHash\<close> (base 58). The agent compares deployments in two ways:
  by the string \<open>bytes32\<close> (\<^verbatim>\<open>a.bytes32 === b.bytes32\<close>) and by object identity
  (\<^verbatim>\<open>==\<close> on the objects, and membership in a JavaScript \<^verbatim>\<open>Set\<close>). The field
  \<open>ref\<close> is the identity of the object: two records are the same object exactly
  when their \<open>ref\<close> is the same.
\<close>

record SubgraphDeploymentID =
  ref :: nat
  bytes32 :: string
  ipfsHash :: string

text \<open>\<^verbatim>\<open>toString()\<close> of a \<^verbatim>\<open>SubgraphDeploymentID\<close> is its hex value.\<close>

definition toString :: "SubgraphDeploymentID \<Rightarrow> string" where
  "toString d = bytes32 d"

datatype error =
    InvalidSubgraphDeploymentID string
  | NoRewardsPoolFound string
  | BlockNotFound
  | NetworkIdentifierNotFound string
  | NetworkMappedKeysDiffer

text \<open>
  Modelled from the spec: the types of the data the agent handles are declared in
  \<^verbatim>\<open>indexer-common\<close>, which is not among the source files. Each record below has
  the fields that the data model of the specification lists and the agent reads,
  under the names the code uses; a name that two records share, or that is a
  constant of HOL, carries a suffix (\<open>id_al\<close> is \<^verbatim>\<open>allocation.id\<close>,
  \<open>subgraphDeployment_id\<close> is \<^verbatim>\<open>allocation.subgraphDeployment.id\<close>). The agent
  reads \<^verbatim>\<open>closedAtEpoch\<close> as a number and \<^verbatim>\<open>poi\<close> and the two block hashes as
  values that may be \<^verbatim>\<open>undefined\<close>.
\<close>

record Allocation =
  id_al :: string
  indexer :: string
  subgraphDeployment_id :: SubgraphDeploymentID
  allocatedTokens :: int
  createdAtEpoch :: int
  closedAtEpoch :: int
  closedAtEpochStartBlockHash :: "string option"
  previousEpochStartBlockHash :: "string option"
  poi :: "string option"

text \<open>Modelled from the spec: the modes of allocation management of a network's
  \<^verbatim>\<open>indexerOptions\<close>; the agent names \<^verbatim>\<open>AllocationManagementMode.MANUAL\<close>.\<close>

datatype AllocationManagementMode = AUTO | OVERSIGHT | MANUAL

text \<open>
  Modelled from the spec: a \<^verbatim>\<open>Network\<close> bundles the configuration of one protocol
  network (\<^verbatim>\<open>network.specification\<close>, \<^verbatim>\<open>network.networkSubgraph.deployment\<close>)
  with the collaborators the agent reads through it. The reads are functions of their
  arguments: \<open>allocations_ACTIVE\<close> is what
  \<^verbatim>\<open>networkMonitor.allocations(AllocationStatus.ACTIVE)\<close> returns,
  \<open>closedAllocations\<close> what \<^verbatim>\<open>networkMonitor.closedAllocations(deployment)\<close>
  returns, and \<open>getAllocation id\<close> is the \<^verbatim>\<open>closedAtEpoch\<close> of
  \<^verbatim>\<open>contracts.staking.getAllocation(id)\<close>, or \<open>None\<close> when that contract read
  throws.
\<close>

record Network =
  networkIdentifier :: string
  allocationManagementMode :: AllocationManagementMode
  allocateOnNetworkSubgraph :: bool
  networkSubgraph_deployment :: "SubgraphDeploymentID option"
  allocations_ACTIVE :: "Allocation list"
  closedAllocations :: "SubgraphDeploymentID \<Rightarrow> Allocation list"
  getAllocation :: "string \<Rightarrow> int option"

text \<open>
  \<^verbatim>\<open>NetworkMapped<T>\<close> is a plain object keyed by network identifier; it is an
  association list in the order of \<^verbatim>\<open>Object.entries\<close>. \<^verbatim>\<open>MultiNetworks\<close> holds
  one \<^verbatim>\<open>Network\<close> per identifier.
\<close>

type_synonym 'a NetworkMapped = "(string \<times> 'a) list"

section \<open>Results that may be errors\<close>

text \<open>\<^verbatim>\<open>Promise.all\<close> and \<^verbatim>\<open>Array.prototype.map\<close> with a callback that may
  throw: the results in order, or the first error.\<close>

fun collect :: "(error + 'a) list \<Rightarrow> error + 'a list" where
  "collect [] = Inr []"
| "collect (Inl e # rs) = Inl e"
| "collect (Inr x # rs) = (case collect rs of Inl e \<Rightarrow> Inl e | Inr xs \<Rightarrow> Inr (x # xs))"

section \<open>Helpers on lists of deployments\<close>

text \<open>\<^verbatim>\<open>Array.prototype.findIndex\<close>: the first index whose element satisfies the
  predicate; \<open>None\<close> stands for \<^verbatim>\<open>-1\<close>.\<close>

fun findIndex :: "('a \<Rightarrow> bool) \<Rightarrow> 'a list \<Rightarrow> nat option" where
  "findIndex P [] = None"
| "findIndex P (x # xs) = (if P x then Some 0 else map_option Suc (findIndex P xs))"

text \<open>\<^verbatim>\<open>Array.prototype.filter\<close> with a callback that also receives the index and
  the array.\<close>

definition filter_indexed :: "('a \<Rightarrow> nat \<Rightarrow> 'a list \<Rightarrow> bool) \<Rightarrow> 'a list \<Rightarrow> 'a list" where
  "filter_indexed f xs = map fst (filter (\<lambda>(x, i). f x i xs) (zip xs [0..<length xs]))"

definition deploymentInList :: "SubgraphDeploymentID list \<Rightarrow> SubgraphDeploymentID \<Rightarrow> bool" where
  "deploymentInList list d = (find (\<lambda>item. bytes32 item = bytes32 d) list \<noteq> None)"

definition uniqueDeploymentsOnly ::
  "SubgraphDeploymentID \<Rightarrow> nat \<Rightarrow> SubgraphDeploymentID list \<Rightarrow> bool" where
  "uniqueDeploymentsOnly v i array = (findIndex (\<lambda>w. bytes32 v = bytes32 w) array = Some i)"

definition uniqueDeployments :: "SubgraphDeploymentID list \<Rightarrow> SubgraphDeploymentID list" where
  "uniqueDeployments deployments = filter_indexed uniqueDeploymentsOnly deployments"

section \<open>The deployment reconciler\<close>

text \<open>
  \<^verbatim>\<open>if (!deploymentInList(targetDeployments, d)) targetDeployments.push(d)\<close>, the
  statement that lines 849--851 and 860--862 of \<^verbatim>\<open>reconcileDeployments\<close> both run.
\<close>

definition pushIfMissing ::
  "SubgraphDeploymentID list \<Rightarrow> SubgraphDeploymentID \<Rightarrow> SubgraphDeploymentID list" where
  "pushIfMissing targetDeployments d =
     (if \<not> deploymentInList targetDeployments d then targetDeployments @ [d]
      else targetDeployments)"

text \<open>
  Lines 846--853 hand a callback to \<^verbatim>\<open>this.multiNetworks.map\<close> and do not await
  the promise it returns. \<^verbatim>\<open>MultiNetworks.map\<close> is declared in
  \<^verbatim>\<open>indexer-common\<close> and is not among the source files, so whether it has run the
  callbacks by the time line 859 executes is the parameter \<open>eager\<close>: when it has, the
  meta-subgraph deployment of every network is pushed; when it has not, the pushes
  happen after \<open>deploy\<close> and \<open>remove\<close> are computed and change neither.
\<close>

definition networkSubgraphTargets ::
  "bool \<Rightarrow> Network NetworkMapped \<Rightarrow> SubgraphDeploymentID list \<Rightarrow> SubgraphDeploymentID list" where
  "networkSubgraphTargets eager multiNetworks targetDeployments =
     (if eager then
        foldl (\<lambda>t (k, network).
                 case networkSubgraph_deployment network of
                   None \<Rightarrow> t
                 | Some networkDeploymentID \<Rightarrow> pushIfMissing t networkDeploymentID)
              targetDeployments multiNetworks
      else targetDeployments)"

text \<open>The array \<^verbatim>\<open>targetDeployments\<close> as it stands at line 864, after the two
  rounds of pushes.\<close>

definition augmentedTargets ::
  "bool \<Rightarrow> Network NetworkMapped \<Rightarrow> SubgraphDeploymentID list \<Rightarrow> SubgraphDeploymentID list
     \<Rightarrow> SubgraphDeploymentID list" where
  "augmentedTargets eager multiNetworks offchainSubgraphs targetDeployments =
     foldl pushIfMissing (networkSubgraphTargets eager multiNetworks targetDeployments)
       offchainSubgraphs"

text \<open>Lines 864--897: the pair \<open>(deploy, remove)\<close>.\<close>

definition deploymentChanges ::
  "bool \<Rightarrow> Network NetworkMapped \<Rightarrow> SubgraphDeploymentID list \<Rightarrow> SubgraphDeploymentID list
     \<Rightarrow> SubgraphDeploymentID list \<Rightarrow> Allocation list
     \<Rightarrow> SubgraphDeploymentID list \<times> SubgraphDeploymentID list" where
  "deploymentChanges eager multiNetworks offchainSubgraphs activeDeployments targetDeployments
       eligibleAllocations =
     (let active = uniqueDeployments activeDeployments;
          target = uniqueDeployments
                     (augmentedTargets eager multiNetworks offchainSubgraphs targetDeployments);
          eligibleAllocationDeployments =
            uniqueDeployments (map subgraphDeployment_id eligibleAllocations);
          deploy = filter (\<lambda>d. \<not> deploymentInList active d) target;
          remove = filter (\<lambda>d. \<not> deploymentInList target d \<and>
                                 \<not> deploymentInList eligibleAllocationDeployments d) active
      in (deploy, remove))"

text \<open>
  Lines 912--937: every deployment of \<open>deploy\<close> is handed to
  \<^verbatim>\<open>graphNode.ensure\<close> under the name \<^verbatim>\<open>indexer-agent/\<close> followed by the last ten
  characters of its IPFS hash, and every deployment of \<open>remove\<close> to
  \<^verbatim>\<open>graphNode.remove\<close>. The result is the list of requests made of the graph node
  when none of them fails. The log lines of the function are left out.
\<close>

datatype GraphNodeCall = Ensure string SubgraphDeploymentID | Remove SubgraphDeploymentID

definition slice_last :: "nat \<Rightarrow> string \<Rightarrow> string" where
  "slice_last n s = drop (length s - n) s"

definition reconcileDeployments ::
  "bool \<Rightarrow> Network NetworkMapped \<Rightarrow> SubgraphDeploymentID list \<Rightarrow> SubgraphDeploymentID list
     \<Rightarrow> SubgraphDeploymentID list \<Rightarrow> Allocation list \<Rightarrow> GraphNodeCall list" where
  "reconcileDeployments eager multiNetworks offchainSubgraphs activeDeployments targetDeployments
       eligibleAllocations =
     (case deploymentChanges eager multiNetworks offchainSubgraphs activeDeployments
             targetDeployments eligibleAllocations of
        (deploy, remove) \<Rightarrow>
          map (\<lambda>d. Ensure (''indexer-agent/'' @ slice_last 10 (ipfsHash d)) d) deploy
          @ map Remove remove)"

section \<open>Indexing rules, subgraphs and allocation decisions\<close>

text \<open>
  Modelled from the spec: \<^verbatim>\<open>SubgraphIdentifierType\<close>, \<^verbatim>\<open>IndexingDecisionBasis\<close>,
  \<^verbatim>\<open>IndexingRuleAttributes\<close>, \<^verbatim>\<open>Subgraph\<close> and \<^verbatim>\<open>AllocationDecision\<close> are declared
  in \<^verbatim>\<open>indexer-common\<close>, which is not among the source files. The constructors and
  fields are the ones the data model of the specification lists; the agent names
  \<^verbatim>\<open>SubgraphIdentifierType.SUBGRAPH\<close>, \<^verbatim>\<open>SubgraphIdentifierType.DEPLOYMENT\<close> and
  \<^verbatim>\<open>IndexingDecisionBasis.OFFCHAIN\<close>. \<open>id_sg\<close> is \<^verbatim>\<open>subgraph.id\<close> and
  \<open>deployment_v\<close> is \<^verbatim>\<open>version.deployment\<close>.
\<close>

datatype SubgraphIdentifierType = GLOBAL | DEPLOYMENT | SUBGRAPH

datatype IndexingDecisionBasis = RULES | ALWAYS | NEVER | OFFCHAIN

record IndexingRuleAttributes =
  "identifier" :: string
  identifierType :: SubgraphIdentifierType
  decisionBasis :: IndexingDecisionBasis
  allocationAmount :: "string option"
  allocationLifetime :: "int option"
  parallelAllocations :: "int option"
  maxSignal :: "string option"
  minSignal :: "string option"
  minStake :: "string option"
  minAverageQueryFees :: "string option"
  protocolNetwork :: string

record SubgraphVersion =
  version :: int
  createdAt :: int
  deployment_v :: SubgraphDeploymentID

record Subgraph =
  id_sg :: string
  versionCount :: int
  versions :: "SubgraphVersion list"

record RuleMatch =
  rule :: "IndexingRuleAttributes option"
  reason :: string

record AllocationDecision =
  deployment :: SubgraphDeploymentID
  toAllocate :: bool
  ruleMatch :: RuleMatch

section \<open>The rule normaliser\<close>

text \<open>
  \<^verbatim>\<open>new SubgraphDeploymentID(s)\<close> accepts an identifier in hex or base-58 form and
  throws on every other string. The constructor belongs to \<^verbatim>\<open>common-ts\<close>; it is
  the parameter \<open>parseId\<close>, which maps an identifier to the deployment it denotes and
  is \<open>None\<close> where the constructor throws.
\<close>

type_synonym parser = "string \<Rightarrow> SubgraphDeploymentID option"

text \<open>Lines 124--133. \<^verbatim>\<open>find\<close> stops at the first rule that matches, and the
  constructor runs only for rules of type \<open>DEPLOYMENT\<close>.\<close>

fun deploymentRuleInList ::
  "parser \<Rightarrow> IndexingRuleAttributes list \<Rightarrow> SubgraphDeploymentID \<Rightarrow> error + bool" where
  "deploymentRuleInList parseId [] d = Inr False"
| "deploymentRuleInList parseId (r # list) d =
     (if identifierType r = DEPLOYMENT then
        (case parseId (identifier r) of
           None \<Rightarrow> Inl (InvalidSubgraphDeploymentID (identifier r))
         | Some d' \<Rightarrow>
             if toString d' = toString d then Inr True
             else deploymentRuleInList parseId list d)
      else deploymentRuleInList parseId list d)"

text \<open>
  Lines 151--192: the callback of \<^verbatim>\<open>rules.map\<close>, run for the rule \<open>r\<close> that
  stands between \<open>visited\<close> (the rules already visited, as the callback has left
  them) and \<open>unvisited\<close> (the rules not yet visited) in the array \<open>rules\<close>. The
  callback changes \<open>r\<close> in place and pushes onto \<open>toAdd\<close>; the result is the rule
  as the callback leaves it and what it pushes. \<open>now_ms\<close> is the reading of
  \<^verbatim>\<open>Date.now()\<close>. The rules of the array are distinct objects, so the assignment to
  \<^verbatim>\<open>rule.identifier\<close> changes this position of the array only.
\<close>

definition convertRule ::
  "parser \<Rightarrow> Subgraph list \<Rightarrow> int \<Rightarrow> int \<Rightarrow> IndexingRuleAttributes list
     \<Rightarrow> IndexingRuleAttributes \<Rightarrow> IndexingRuleAttributes list
     \<Rightarrow> error + (IndexingRuleAttributes \<times> IndexingRuleAttributes list)" where
  "convertRule parseId subgraphs previousVersionBuffer now_ms visited r unvisited =
     (if identifierType r \<noteq> SUBGRAPH then Inr (r, [])
      else
        case find (\<lambda>subgraph. id_sg subgraph = identifier r) subgraphs of
          None \<Rightarrow> Inr (r, [])
        | Some ruleSubgraph \<Rightarrow>
            let latestVersion = versionCount ruleSubgraph - 1 in
            case find (\<lambda>v. version v = latestVersion) (versions ruleSubgraph) of
              None \<Rightarrow> Inr (r, [])
            | Some latestDeploymentVersion \<Rightarrow>
                (case deploymentRuleInList parseId (visited @ r # unvisited)
                        (deployment_v latestDeploymentVersion) of
                   Inl e \<Rightarrow> Inl e
                 | Inr inList \<Rightarrow>
                     let r' = (if \<not> inList
                               then r\<lparr>identifier :=
                                        toString (deployment_v latestDeploymentVersion),
                                      identifierType := DEPLOYMENT\<rparr>
                               else r);
                         currentTimestamp = now_ms div 1000
                     in if createdAt latestDeploymentVersion
                             > currentTimestamp - previousVersionBuffer
                        then
                          (case find (\<lambda>v. version v = latestVersion - 1)
                                  (versions ruleSubgraph) of
                             None \<Rightarrow> Inr (r', [])
                           | Some previousDeploymentVersion \<Rightarrow>
                               (case deploymentRuleInList parseId (visited @ r' # unvisited)
                                       (deployment_v previousDeploymentVersion) of
                                  Inl e \<Rightarrow> Inl e
                                | Inr previousInList \<Rightarrow>
                                    if \<not> previousInList
                                    then Inr (r',
                                      [r'\<lparr>identifier :=
                                            toString (deployment_v previousDeploymentVersion),
                                          identifierType := DEPLOYMENT\<rparr>])
                                    else Inr (r', [])))
                        else Inr (r', [])))"

text \<open>
  The loop of \<^verbatim>\<open>rules.map\<close> over the array, followed by
  \<^verbatim>\<open>rules.push(...toAdd)\<close> (line 193). \<open>visited\<close> are the rules the callback has
  run for, \<open>now i\<close> is the reading of \<^verbatim>\<open>Date.now()\<close> during the callback for the
  rule at index \<open>i\<close>.
\<close>

fun convertLoop ::
  "parser \<Rightarrow> (nat \<Rightarrow> int) \<Rightarrow> Subgraph list \<Rightarrow> int \<Rightarrow> IndexingRuleAttributes list
     \<Rightarrow> IndexingRuleAttributes list \<Rightarrow> IndexingRuleAttributes list
     \<Rightarrow> error + IndexingRuleAttributes list" where
  "convertLoop parseId now subgraphs previousVersionBuffer visited [] toAdd =
     Inr (visited @ toAdd)"
| "convertLoop parseId now subgraphs previousVersionBuffer visited (r # rest) toAdd =
     (case convertRule parseId subgraphs previousVersionBuffer (now (length visited))
             visited r rest of
        Inl e \<Rightarrow> Inl e
      | Inr (r', added) \<Rightarrow>
          convertLoop parseId now subgraphs previousVersionBuffer (visited @ [r']) rest
            (toAdd @ added))"

definition convertSubgraphBasedRulesToDeploymentBased ::
  "parser \<Rightarrow> (nat \<Rightarrow> int) \<Rightarrow> IndexingRuleAttributes list \<Rightarrow> Subgraph list \<Rightarrow> int
     \<Rightarrow> error + IndexingRuleAttributes list" where
  "convertSubgraphBasedRulesToDeploymentBased parseId now rules subgraphs
       previousVersionBuffer =
     convertLoop parseId now subgraphs previousVersionBuffer [] rules []"

text \<open>Lines 164--167: the rule as the callback leaves it when the latest version is
  found; \<open>inList\<close> says whether a rule of the array already targets the latest
  deployment.\<close>

definition rewritten :: "bool \<Rightarrow> IndexingRuleAttributes \<Rightarrow> SubgraphVersion \<Rightarrow> IndexingRuleAttributes" where
  "rewritten inList r lv =
     (if inList then r
      else r\<lparr>identifier := toString (deployment_v lv), identifierType := DEPLOYMENT\<rparr>)"

text \<open>
  The identifiers the normaliser hands to the constructor are those of the rules of
  type \<open>DEPLOYMENT\<close> and the hex strings of the deployments of the subgraphs'
  versions. \<open>identifiersParse\<close> says that the constructor accepts all of them.
\<close>

definition identifiersParse ::
  "parser \<Rightarrow> IndexingRuleAttributes list \<Rightarrow> Subgraph list \<Rightarrow> bool" where
  "identifiersParse parseId rules subgraphs \<longleftrightarrow>
     (\<forall>r\<in>set rules. identifierType r = DEPLOYMENT \<longrightarrow> parseId (identifier r) \<noteq> None) \<and>
     (\<forall>sg\<in>set subgraphs. \<forall>v\<in>set (versions sg).
        parseId (toString (deployment_v v)) \<noteq> None)"

section \<open>The allocation reconciler\<close>

subsection \<open>The network-subgraph guard\<close>

text \<open>
  Lines 1104--1124 of \<^verbatim>\<open>reconcileActions\<close>, the callback run for each network
  on its array of decisions. The assignment
  \<^verbatim>\<open>allocationDecisions[networkSubgraphIndex].toAllocate = false\<close> changes one
  object of the array; the elements of the array are distinct objects (one decision
  per deployment evaluated), so it is an update of one position of the list.
\<close>

definition networkSubgraphGuard ::
  "Network \<Rightarrow> AllocationDecision list \<Rightarrow> AllocationDecision list" where
  "networkSubgraphGuard network allocationDecisions =
     (case networkSubgraph_deployment network of
        None \<Rightarrow> allocationDecisions
      | Some networkSubgraphDeployment \<Rightarrow>
          if \<not> allocateOnNetworkSubgraph network then
            (case findIndex
                    (\<lambda>decision. bytes32 (deployment decision) =
                                 bytes32 networkSubgraphDeployment)
                    allocationDecisions of
               None \<Rightarrow> allocationDecisions
             | Some networkSubgraphIndex \<Rightarrow>
                 allocationDecisions
                   [networkSubgraphIndex :=
                      (allocationDecisions ! networkSubgraphIndex)\<lparr>toAllocate := False\<rparr>])
          else allocationDecisions)"

subsection \<open>Expiring allocations\<close>

text \<open>A JavaScript number used as a condition: \<^verbatim>\<open>undefined\<close>, \<^verbatim>\<open>null\<close> and
  \<^verbatim>\<open>0\<close> are falsy.\<close>

fun truthy_number :: "int option \<Rightarrow> bool" where
  "truthy_number None = False"
| "truthy_number (Some n) = (n \<noteq> 0)"

text \<open>\<^verbatim>\<open>deploymentAllocationDecision.ruleMatch.rule?.allocationLifetime\<close>\<close>

definition rule_allocationLifetime :: "AllocationDecision \<Rightarrow> int option" where
  "rule_allocationLifetime d =
     (case rule (ruleMatch d) of None \<Rightarrow> None | Some r \<Rightarrow> allocationLifetime r)"

text \<open>
  Lines 940--983. \<^verbatim>\<open>pFilter\<close> keeps the order of the array. The predicate reads
  the allocation from the staking contract; when the read throws, the
  \<^verbatim>\<open>catch\<close> block returns \<^verbatim>\<open>true\<close>.
\<close>

definition identifyExpiringAllocations ::
  "Network \<Rightarrow> Allocation list \<Rightarrow> AllocationDecision \<Rightarrow> int \<Rightarrow> int \<Rightarrow> Allocation list" where
  "identifyExpiringAllocations network activeAllocations deploymentAllocationDecision epoch
       maxAllocationEpochs =
     (let desiredAllocationLifetime =
            (if truthy_number (rule_allocationLifetime deploymentAllocationDecision)
             then the (rule_allocationLifetime deploymentAllocationDecision)
             else max 1 (maxAllocationEpochs - 1));
          expiredAllocations =
            filter (\<lambda>allocation. epoch \<ge> createdAtEpoch allocation + desiredAllocationLifetime)
              activeAllocations
      in filter (\<lambda>allocation.
                   case getAllocation network (id_al allocation) of
                     Some onChain_closedAtEpoch \<Rightarrow> onChain_closedAtEpoch = 0
                   | None \<Rightarrow> True)
           expiredAllocations)"

text \<open>
  The reading of claim C7, in the words of the specification:
  \<^verbatim>\<open>desiredLifetime = rule?.allocationLifetime ?? max(1, maxAllocationEpochs - 1)\<close>,
  the rule's lifetime whenever it is set.
\<close>

definition identifyExpiringAllocations_spec ::
  "Network \<Rightarrow> Allocation list \<Rightarrow> AllocationDecision \<Rightarrow> int \<Rightarrow> int \<Rightarrow> Allocation list" where
  "identifyExpiringAllocations_spec network activeAllocations d epoch maxAllocationEpochs =
     (let desiredLifetime =
            (case rule_allocationLifetime d of
               Some l \<Rightarrow> l
             | None \<Rightarrow> max 1 (maxAllocationEpochs - 1))
      in filter (\<lambda>a. epoch \<ge> createdAtEpoch a + desiredLifetime \<and>
                      (getAllocation network (id_al a) = Some 0 \<or>
                       getAllocation network (id_al a) = None))
           activeAllocations)"

subsection \<open>Promises and the fan-out over networks\<close>

text \<open>
  A promise that settles with a value of type \<open>'a\<close>; \<^verbatim>\<open>await\<close> yields that value.
  \<^verbatim>\<open>Object.entries(o)\<close> lists the own enumerable string-keyed properties of \<open>o\<close>.
  A promise object has none, whatever it settles with, so \<^verbatim>\<open>Object.entries\<close> of a
  promise is the empty array.
\<close>

datatype 'a Promise = Promise 'a

definition await :: "'a Promise \<Rightarrow> 'a" where
  "await p = (case p of Promise x \<Rightarrow> x)"

definition Object_entries_of_Promise :: "'a Promise \<Rightarrow> (string \<times> 'b) list" where
  "Object_entries_of_Promise p = []"

text \<open>
  Modelled from the spec: \<^verbatim>\<open>MultiNetworks.mapNetworkMapped\<close> and
  \<^verbatim>\<open>MultiNetworks.zip4\<close> are declared in \<^verbatim>\<open>indexer-common\<close>, which is not among
  the source files. \<open>mapNetworkMapped input f\<close> joins \<open>input\<close> with the networks by
  identifier and applies \<open>f\<close>; an identifier that names no network is a fatal error.
  What it returns is read off the agent's calls: every callback it is given is
  \<^verbatim>\<open>async\<close>, and the agent awaits the result before it reads the mapped values as
  settled values (lines 515--524 flatten them as arrays of allocations, lines
  1101--1152 filter them as arrays of decisions), so the result is a promise of the
  mapped object. \<open>zip4\<close> aligns four objects by identifier and requires each of
  them to cover the identifiers of the networks.
\<close>

definition mapNetworkMapped ::
  "Network NetworkMapped \<Rightarrow> 'u NetworkMapped \<Rightarrow> (Network \<Rightarrow> 'u \<Rightarrow> error + 'v)
     \<Rightarrow> (error + 'v NetworkMapped) Promise" where
  "mapNetworkMapped multiNetworks nmap f =
     Promise (collect (map (\<lambda>(key, v).
                case map_of multiNetworks key of
                  None \<Rightarrow> Inl (NetworkIdentifierNotFound key)
                | Some network \<Rightarrow>
                    (case f network v of
                       Inl e \<Rightarrow> Inl e
                     | Inr w \<Rightarrow> Inr (key, w)))
              nmap))"

definition zip4 ::
  "Network NetworkMapped \<Rightarrow> 'a NetworkMapped \<Rightarrow> 'b NetworkMapped \<Rightarrow> 'c NetworkMapped
     \<Rightarrow> 'd NetworkMapped \<Rightarrow> error + ('a \<times> 'b \<times> 'c \<times> 'd) NetworkMapped" where
  "zip4 multiNetworks a b c d =
     (if set (map fst a) = set (map fst multiNetworks) \<and>
         set (map fst b) = set (map fst multiNetworks) \<and>
         set (map fst c) = set (map fst multiNetworks) \<and>
         set (map fst d) = set (map fst multiNetworks)
      then Inr (map (\<lambda>(k, x). (k, (x, the (map_of b k), the (map_of c k), the (map_of d k)))) a)
      else Inl NetworkMappedKeysDiffer)"

subsection \<open>The action for one deployment\<close>

text \<open>The requests the agent makes of a network's operator. The first argument is
  the identifier of the network the operator belongs to.\<close>

datatype OperatorCall =
    CloseEligibleAllocations string AllocationDecision "Allocation list" int
  | CreateAllocation string AllocationDecision "Allocation option"
  | RefreshExpiredAllocations string AllocationDecision "Allocation list"

text \<open>
  Lines 985--1053. The result is the list of calls of the operator that the
  function issues: one call or none.
\<close>

definition reconcileDeploymentAllocationAction ::
  "AllocationDecision \<Rightarrow> int \<Rightarrow> int \<Rightarrow> Network \<Rightarrow> OperatorCall list" where
  "reconcileDeploymentAllocationAction deploymentAllocationDecision epoch maxAllocationEpochs
       network =
     (let activeAllocations = allocations_ACTIVE network;
          activeDeploymentAllocations =
            filter (\<lambda>allocation.
                      bytes32 (subgraphDeployment_id allocation) =
                      bytes32 (deployment deploymentAllocationDecision))
              activeAllocations
      in if \<not> toAllocate deploymentAllocationDecision then
           [CloseEligibleAllocations (networkIdentifier network) deploymentAllocationDecision
              activeDeploymentAllocations epoch]
         else if length activeDeploymentAllocations = 0 then
           (let mostRecentlyClosedAllocation =
                  (case closedAllocations network (deployment deploymentAllocationDecision) of
                     [] \<Rightarrow> None
                   | a # _ \<Rightarrow> Some a)
            in [CreateAllocation (networkIdentifier network) deploymentAllocationDecision
                  mostRecentlyClosedAllocation])
         else
           (let expiringAllocations =
                  identifyExpiringAllocations network activeDeploymentAllocations
                    deploymentAllocationDecision epoch maxAllocationEpochs
            in if length expiringAllocations > 0 then
                 [RefreshExpiredAllocations (networkIdentifier network)
                    deploymentAllocationDecision expiringAllocations]
               else []))"

subsection \<open>\<^verbatim>\<open>reconcileActions\<close>\<close>

text \<open>\<^verbatim>\<open>delete networkDeploymentAllocationDecisions[networkIdentifier]\<close>\<close>

definition delete_key :: "string \<Rightarrow> 'a NetworkMapped \<Rightarrow> 'a NetworkMapped" where
  "delete_key key nmap = filter (\<lambda>(k, v). k \<noteq> key) nmap"

text \<open>
  Lines 1057--1171. The result is the list of operator calls issued in the cycle,
  network by network and decision by decision, when no collaborator fails; an
  identifier that cannot be aligned with the networks is the error.

  Line 1066 calls \<^verbatim>\<open>mapNetworkMapped\<close> with the callback that tells whether a
  network is in manual mode and does not await the promise; the loop of lines
  1073--1091 runs over \<^verbatim>\<open>Object.entries\<close> of that promise.
\<close>

definition reconcileActions ::
  "Network NetworkMapped \<Rightarrow> AllocationDecision list NetworkMapped \<Rightarrow> Allocation list NetworkMapped
     \<Rightarrow> int NetworkMapped \<Rightarrow> int NetworkMapped \<Rightarrow> error + OperatorCall list" where
  "reconcileActions multiNetworks networkDeploymentAllocationDecisions activeAllocations epoch
       maxAllocationEpochs =
     (let manualModeNetworks =
            mapNetworkMapped multiNetworks networkDeploymentAllocationDecisions
              (\<lambda>network decisions.
                 (Inr (allocationManagementMode network = MANUAL) :: error + bool));
          remaining =
            foldl (\<lambda>decisions (key, isOnManualMode).
                     if isOnManualMode then delete_key key decisions
                     else decisions)
              networkDeploymentAllocationDecisions
              (Object_entries_of_Promise manualModeNetworks)
      in if remaining = [] then Inr []
         else
           (case await (mapNetworkMapped multiNetworks remaining
                          (\<lambda>network allocationDecisions.
                             (Inr (networkSubgraphGuard network allocationDecisions)
                                :: error + AllocationDecision list))) of
              Inl e \<Rightarrow> Inl e
            | Inr filteredNetworkDeploymentAllocationDecisions \<Rightarrow>
                (case zip4 multiNetworks filteredNetworkDeploymentAllocationDecisions
                        activeAllocations epoch maxAllocationEpochs of
                   Inl e \<Rightarrow> Inl e
                 | Inr zipped \<Rightarrow>
                     (case await (mapNetworkMapped multiNetworks zipped
                                    (\<lambda>network (allocationDecisions, active, e, m).
                                       (Inr (concat (map (\<lambda>decision.
                                               reconcileDeploymentAllocationAction decision e m
                                                 network)
                                             allocationDecisions))
                                          :: error + OperatorCall list))) of
                        Inl e \<Rightarrow> Inl e
                      | Inr calls \<Rightarrow> Inr (concat (map snd calls))))))"

section \<open>The target deployments\<close>

text \<open>
  A JavaScript \<^verbatim>\<open>Set\<close> of objects keeps its elements in insertion order and
  compares them by identity: \<^verbatim>\<open>add\<close> leaves the set as it is when the very object
  is already an element, and appends the object otherwise.
\<close>

definition Set_add :: "SubgraphDeploymentID list \<Rightarrow> SubgraphDeploymentID \<Rightarrow> SubgraphDeploymentID list" where
  "Set_add s d = (if ref d \<in> ref ` set s then s else s @ [d])"

definition new_Set :: "SubgraphDeploymentID list \<Rightarrow> SubgraphDeploymentID list" where
  "new_Set iterable = foldl Set_add [] iterable"

text \<open>
  \<^verbatim>\<open>new SubgraphDeploymentID(s)\<close> makes a new object: its value is what the
  constructor reads from \<open>s\<close>, its identity is the next free one of the heap.
\<close>

definition new_SubgraphDeploymentID ::
  "parser \<Rightarrow> nat \<Rightarrow> string \<Rightarrow> error + SubgraphDeploymentID" where
  "new_SubgraphDeploymentID parseId heap s =
     (case parseId s of
        None \<Rightarrow> Inl (InvalidSubgraphDeploymentID s)
      | Some d \<Rightarrow> Inr (d\<lparr>ref := heap\<rparr>))"

text \<open>Lines 467--474: the loop over the offchain rules. \<open>heap\<close> is the number of
  objects made so far; every object that exists has a smaller \<open>ref\<close>.\<close>

fun addOffchainRules ::
  "parser \<Rightarrow> nat \<Rightarrow> SubgraphDeploymentID list \<Rightarrow> IndexingRuleAttributes list
     \<Rightarrow> error + SubgraphDeploymentID list" where
  "addOffchainRules parseId heap s [] = Inr s"
| "addOffchainRules parseId heap s (r # rs) =
     (case new_SubgraphDeploymentID parseId heap (identifier r) of
        Inl e \<Rightarrow> Inl e
      | Inr d \<Rightarrow> addOffchainRules parseId (Suc heap) (Set_add s d) rs)"

text \<open>
  Lines 457--480: the value the \<^verbatim>\<open>targetDeployments\<close> eventual emits for the
  decisions and rules of all networks and the offchain list from startup, or the
  error that \<^verbatim>\<open>tryMap\<close> catches (no value is emitted then).
\<close>

definition targetDeployments ::
  "parser \<Rightarrow> nat \<Rightarrow> AllocationDecision list NetworkMapped
     \<Rightarrow> IndexingRuleAttributes list NetworkMapped \<Rightarrow> SubgraphDeploymentID list
     \<Rightarrow> error + SubgraphDeploymentID list" where
  "targetDeployments parseId heap networkDeploymentAllocationDecisions indexingRules
       offchainSubgraphs =
     (let targetDeploymentIDs =
            new_Set (map deployment
              (filter (\<lambda>decision. toAllocate decision = True)
                 (concat (map snd networkDeploymentAllocationDecisions))))
      in case addOffchainRules parseId heap targetDeploymentIDs
                (filter (\<lambda>r. decisionBasis r = OFFCHAIN) (concat (map snd indexingRules))) of
           Inl e \<Rightarrow> Inl e
         | Inr withRules \<Rightarrow> Inr (foldl Set_add withRules offchainSubgraphs))"

text \<open>
  A set of objects is \<open>consistent\<close> when those with the same identity have the same
  value, as the objects of one run of the program have.
\<close>

definition consistent :: "SubgraphDeploymentID set \<Rightarrow> bool" where
  "consistent S = (\<forall>x\<in>S. \<forall>y\<in>S. ref x = ref y \<longrightarrow> bytes32 x = bytes32 y)"

text \<open>The objects of a set are \<open>older\<close> than a heap mark when they were all made
  before it.\<close>

definition older :: "nat \<Rightarrow> SubgraphDeploymentID set \<Rightarrow> bool" where
  "older heap S = (\<forall>x\<in>S. ref x < heap)"

section \<open>The dispute identifier\<close>

text \<open>
  Modelled from the spec: \<^verbatim>\<open>RewardsPool\<close> and \<^verbatim>\<open>POIDisputeAttributes\<close> are declared
  in \<^verbatim>\<open>indexer-common\<close>, which is not among the source files; their fields are the
  ones the data model of the specification lists, with the suffixes \<open>_pool\<close> and
  \<open>_dispute\<close> where a name is shared. A \<open>Block\<close> is what the network provider
  returns for a block hash.
\<close>

record Block =
  number :: int
  hash :: string

record RewardsPool =
  subgraphDeployment :: SubgraphDeploymentID
  allocationIndexer :: string
  closedAtEpoch_pool :: int
  closedAtEpochStartBlockHash_pool :: "string option"
  closedAtEpochStartBlockNumber :: "int option"
  previousEpochStartBlockHash_pool :: "string option"
  previousEpochStartBlockNumber :: "int option"
  referencePOI :: "string option"
  referencePreviousPOI :: "string option"

text \<open>The \<open>status\<close> of a dispute is the string the source writes: \<open>''valid''\<close>,
  \<open>''potential''\<close> or \<open>''reference_unavailable''\<close>.\<close>

record POIDisputeAttributes =
  allocationID :: string
  subgraphDeploymentID :: string
  allocationIndexer_dispute :: string
  allocationAmount_dispute :: int
  allocationProof :: "string option"
  closedEpoch :: int
  closedEpochReferenceProof :: "string option"
  closedEpochStartBlockHash :: "string option"
  closedEpochStartBlockNumber :: "int option"
  previousEpochReferenceProof :: "string option"
  previousEpochStartBlockHash_dispute :: "string option"
  previousEpochStartBlockNumber_dispute :: "int option"
  status :: string
  protocolNetwork_dispute :: string

text \<open>A JavaScript value of type \<^verbatim>\<open>string | undefined\<close> used as a condition:
  \<^verbatim>\<open>undefined\<close>, \<^verbatim>\<open>null\<close> and the empty string are falsy.\<close>

fun truthy_string :: "string option \<Rightarrow> bool" where
  "truthy_string None = False"
| "truthy_string (Some s) = (s \<noteq> [])"

text \<open>
  Modelled from the spec: \<^verbatim>\<open>allocationRewardsPool\<close> is declared in
  \<^verbatim>\<open>indexer-common\<close>, which is not among the source files. The pool of an
  allocation carries its deployment (the allocation's own object), its closing epoch,
  the allocation's \<^verbatim>\<open>closedAtEpochStartBlockHash\<close> and
  \<^verbatim>\<open>previousEpochStartBlockHash\<close> and its indexer; block numbers and reference POIs
  are not filled in yet.
\<close>

definition allocationRewardsPool :: "Allocation \<Rightarrow> RewardsPool" where
  "allocationRewardsPool allocation =
     \<lparr>subgraphDeployment = subgraphDeployment_id allocation,
      allocationIndexer = indexer allocation,
      closedAtEpoch_pool = closedAtEpoch allocation,
      closedAtEpochStartBlockHash_pool = closedAtEpochStartBlockHash allocation,
      closedAtEpochStartBlockNumber = None,
      previousEpochStartBlockHash_pool = previousEpochStartBlockHash allocation,
      previousEpochStartBlockNumber = None,
      referencePOI = None,
      referencePreviousPOI = None\<rparr>"

text \<open>
  The collaborators the dispute identifier reads: \<open>getBlock h\<close> is the block
  \<^verbatim>\<open>network.networkProvider.getBlock(h)\<close> resolves to, or \<open>None\<close> when there is
  none (the call throws, or reading \<^verbatim>\<open>.number\<close> of its result does), and
  \<open>proofOfIndexing\<close> is \<^verbatim>\<open>graphNode.proofOfIndexing\<close>, which yields a POI or
  \<^verbatim>\<open>undefined\<close>.
\<close>

record DisputeReads =
  getBlock :: "string option \<Rightarrow> Block option"
  proofOfIndexing :: "SubgraphDeploymentID \<Rightarrow> Block \<Rightarrow> string \<Rightarrow> string option"

text \<open>Lines 743--774: the callback that fills in one pool.\<close>

definition fillRewardsPool :: "DisputeReads \<Rightarrow> RewardsPool \<Rightarrow> error + RewardsPool" where
  "fillRewardsPool reads pool =
     (case getBlock reads (closedAtEpochStartBlockHash_pool pool) of
        None \<Rightarrow> Inl BlockNotFound
      | Some closedAtEpochStartBlock \<Rightarrow>
          (case getBlock reads (previousEpochStartBlockHash_pool pool) of
             None \<Rightarrow> Inl BlockNotFound
           | Some previousEpochStartBlock \<Rightarrow>
               Inr (pool
                 \<lparr>closedAtEpochStartBlockNumber := Some (number closedAtEpochStartBlock),
                  referencePOI :=
                    proofOfIndexing reads (subgraphDeployment pool)
                      \<lparr>number = number closedAtEpochStartBlock,
                       hash = hash closedAtEpochStartBlock\<rparr>
                      (allocationIndexer pool),
                  previousEpochStartBlockHash_pool := Some (hash previousEpochStartBlock),
                  previousEpochStartBlockNumber := Some (number previousEpochStartBlock),
                  referencePreviousPOI :=
                    proofOfIndexing reads (subgraphDeployment pool)
                      \<lparr>number = number previousEpochStartBlock,
                       hash = hash previousEpochStartBlock\<rparr>
                      (allocationIndexer pool)\<rparr>)))"

text \<open>
  Lines 734--775. The \<^verbatim>\<open>Set\<close> is built from pool objects made one per
  allocation; a \<^verbatim>\<open>Set\<close> compares objects by identity, so it keeps every one of
  them.
\<close>

definition uniqueRewardsPools :: "DisputeReads \<Rightarrow> Allocation list \<Rightarrow> error + RewardsPool list" where
  "uniqueRewardsPools reads newDisputableAllocations =
     collect (map (fillRewardsPool reads)
       (filter (\<lambda>pool. truthy_string (closedAtEpochStartBlockHash_pool pool))
          (map allocationRewardsPool newDisputableAllocations)))"

text \<open>
  Lines 778--822: the dispute built for one new disputable allocation. The pool is
  looked up with \<^verbatim>\<open>==\<close> on the deployment objects, that is by identity. The
  comparisons \<^verbatim>\<open>rewardsPool.referencePOI == allocation.poi\<close> are between values of
  type \<^verbatim>\<open>string | undefined\<close>.
\<close>

definition disputeOf :: "RewardsPool list \<Rightarrow> string \<Rightarrow> Allocation \<Rightarrow> error + POIDisputeAttributes" where
  "disputeOf pools networkIdentifier_of_network allocation =
     (case find (\<lambda>pool. ref (subgraphDeployment pool) = ref (subgraphDeployment_id allocation) \<and>
                         closedAtEpoch_pool pool = closedAtEpoch allocation) pools of
        None \<Rightarrow> Inl (NoRewardsPoolFound (bytes32 (subgraphDeployment_id allocation)))
      | Some rewardsPool \<Rightarrow>
          (let status0 =
                 (if referencePOI rewardsPool = poi allocation \<or>
                     referencePreviousPOI rewardsPool = poi allocation
                  then ''valid'' else ''potential'');
               status1 =
                 (if status0 = ''potential'' \<and>
                     (\<not> truthy_string (referencePOI rewardsPool) \<or>
                      \<not> truthy_string (referencePreviousPOI rewardsPool))
                  then ''reference_unavailable'' else status0)
           in Inr \<lparr>allocationID = id_al allocation,
                   subgraphDeploymentID = ipfsHash (subgraphDeployment_id allocation),
                   allocationIndexer_dispute = indexer allocation,
                   allocationAmount_dispute = allocatedTokens allocation,
                   allocationProof = poi allocation,
                   closedEpoch = closedAtEpoch allocation,
                   closedEpochReferenceProof = referencePOI rewardsPool,
                   closedEpochStartBlockHash = closedAtEpochStartBlockHash allocation,
                   closedEpochStartBlockNumber = closedAtEpochStartBlockNumber rewardsPool,
                   previousEpochReferenceProof = referencePreviousPOI rewardsPool,
                   previousEpochStartBlockHash_dispute =
                     previousEpochStartBlockHash_pool rewardsPool,
                   previousEpochStartBlockNumber_dispute =
                     previousEpochStartBlockNumber rewardsPool,
                   status = status1,
                   protocolNetwork_dispute = networkIdentifier_of_network\<rparr>))"

text \<open>
  Modelled from the spec: the operator's \<^verbatim>\<open>fetchPOIDisputes\<close> and
  \<^verbatim>\<open>storePoiDisputes\<close> are declared in \<^verbatim>\<open>indexer-common\<close>, which is not among
  the source files. Disputes are persisted keyed by
  \<open>(allocationID, protocolNetwork)\<close>; storing is append-only and idempotent by that
  key, so a dispute whose key is already held is not stored again; and
  \<open>fetchPOIDisputes status epochThreshold networkIdentifier\<close> loads the disputes of
  that status and network closed at or after the threshold epoch.
\<close>

type_synonym DisputeTable = "POIDisputeAttributes list"

definition dispute_key :: "POIDisputeAttributes \<Rightarrow> string \<times> string" where
  "dispute_key d = (allocationID d, protocolNetwork_dispute d)"

definition fetchPOIDisputes ::
  "DisputeTable \<Rightarrow> string \<Rightarrow> int \<Rightarrow> string \<Rightarrow> POIDisputeAttributes list" where
  "fetchPOIDisputes table wanted epochThreshold networkId =
     filter (\<lambda>d. status d = wanted \<and> closedEpoch d \<ge> epochThreshold \<and>
                  protocolNetwork_dispute d = networkId) table"

definition storePoiDispute :: "DisputeTable \<Rightarrow> POIDisputeAttributes \<Rightarrow> DisputeTable" where
  "storePoiDispute table d =
     (if dispute_key d \<in> dispute_key ` set table then table else table @ [d])"

definition storePoiDisputes :: "DisputeTable \<Rightarrow> POIDisputeAttributes list \<Rightarrow> DisputeTable" where
  "storePoiDisputes table disputes = foldl storePoiDispute table disputes"

text \<open>
  Lines 695--834. The result is the dispute table after the run together with the
  arguments of the calls of \<^verbatim>\<open>storePoiDisputes\<close> the run issued, or the error the
  run throws. \<open>net\<close> is the network identifier of the operator and of the network,
  which \<^verbatim>\<open>createMultiNetworks\<close> has checked to be the same.
\<close>

definition alreadyProcessed :: "DisputeTable \<Rightarrow> int \<Rightarrow> string \<Rightarrow> POIDisputeAttributes list" where
  "alreadyProcessed table disputableEpoch net =
     fetchPOIDisputes table ''potential'' disputableEpoch net
     @ fetchPOIDisputes table ''valid'' disputableEpoch net"

definition newDisputableAllocations ::
  "DisputeTable \<Rightarrow> Allocation list \<Rightarrow> int \<Rightarrow> string \<Rightarrow> Allocation list" where
  "newDisputableAllocations table disputableAllocations disputableEpoch net =
     filter (\<lambda>allocation.
               find (\<lambda>dispute. allocationID dispute = id_al allocation)
                 (alreadyProcessed table disputableEpoch net) = None)
       disputableAllocations"

definition identifyPotentialDisputes ::
  "DisputeReads \<Rightarrow> DisputeTable \<Rightarrow> Allocation list \<Rightarrow> int \<Rightarrow> string
     \<Rightarrow> error + (DisputeTable \<times> POIDisputeAttributes list list)" where
  "identifyPotentialDisputes reads table disputableAllocations disputableEpoch net =
     (let new = newDisputableAllocations table disputableAllocations disputableEpoch net
      in if length new = 0 then Inr (table, [])
         else
           (case uniqueRewardsPools reads new of
              Inl e \<Rightarrow> Inl e
            | Inr pools \<Rightarrow>
                (case collect (map (disputeOf pools net) new) of
                   Inl e \<Rightarrow> Inl e
                 | Inr disputes \<Rightarrow> Inr (storePoiDisputes table disputes, [disputes]))))"

section \<open>Example inputs\<close>

definition D1 :: SubgraphDeploymentID where
  "D1 = \<lparr>ref = 1, bytes32 = ''0x01'', ipfsHash = ''QmD1''\<rparr>"

definition D2 :: SubgraphDeploymentID where
  "D2 = \<lparr>ref = 2, bytes32 = ''0x02'', ipfsHash = ''QmD2''\<rparr>"

definition D3 :: SubgraphDeploymentID where
  "D3 = \<lparr>ref = 3, bytes32 = ''0x03'', ipfsHash = ''QmD3''\<rparr>"

text \<open>An allocation of another indexer on \<open>D2\<close>, created in epoch 100 and closed in
  epoch 110.\<close>

definition alloc_D2 :: Allocation where
  "alloc_D2 = \<lparr>id_al = ''0xa2'', indexer = ''0xi2'', subgraphDeployment_id = D2,
     allocatedTokens = 1000, createdAtEpoch = 100, closedAtEpoch = 110,
     closedAtEpochStartBlockHash = Some ''0xb110'',
     previousEpochStartBlockHash = Some ''0xb109'', poi = Some ''0xp2''\<rparr>"

text \<open>A network in automatic mode with a meta-subgraph \<open>D3\<close> that must not be
  allocated to; its staking contract reports every allocation as open.\<close>

definition net_auto :: Network where
  "net_auto = \<lparr>networkIdentifier = ''eip155:1'', allocationManagementMode = AUTO,
     allocateOnNetworkSubgraph = False, networkSubgraph_deployment = Some D3,
     allocations_ACTIVE = [], closedAllocations = (\<lambda>d. []),
     getAllocation = (\<lambda>i. Some 0)\<rparr>"

definition rule_always :: IndexingRuleAttributes where
  "rule_always = \<lparr>identifier = ''global'', identifierType = GLOBAL, decisionBasis = ALWAYS,
     allocationAmount = Some ''100'', allocationLifetime = None, parallelAllocations = None,
     maxSignal = None, minSignal = None, minStake = None, minAverageQueryFees = None,
     protocolNetwork = ''eip155:1''\<rparr>"

definition decision :: "SubgraphDeploymentID \<Rightarrow> bool \<Rightarrow> IndexingRuleAttributes \<Rightarrow> AllocationDecision" where
  "decision d b r =
     \<lparr>deployment = d, toAllocate = b, ruleMatch = \<lparr>rule = Some r, reason = ''rule''\<rparr>\<rparr>"

text \<open>An active allocation of the indexer on \<open>D1\<close>, created in epoch 100.\<close>

definition alloc_D1 :: Allocation where
  "alloc_D1 = \<lparr>id_al = ''0xa1'', indexer = ''0xme'', subgraphDeployment_id = D1,
     allocatedTokens = 1000, createdAtEpoch = 100, closedAtEpoch = 0,
     closedAtEpochStartBlockHash = None, previousEpochStartBlockHash = None, poi = None\<rparr>"

definition rule_lifetime0 :: IndexingRuleAttributes where
  "rule_lifetime0 = rule_always\<lparr>allocationLifetime := Some 0\<rparr>"

definition rule_lifetime5 :: IndexingRuleAttributes where
  "rule_lifetime5 = rule_always\<lparr>allocationLifetime := Some 5\<rparr>"

text \<open>Reads for the dispute identifier: the two epoch start blocks of \<open>alloc_D2\<close>
  exist; the graph node has the POI \<open>''0xp2''\<close> for the earlier block and another
  one for the later block.\<close>

definition reads_available :: DisputeReads where
  "reads_available =
     \<lparr>getBlock = (\<lambda>h. if h = Some ''0xb110'' then Some \<lparr>number = 1100, hash = ''0xb110''\<rparr>
                       else if h = Some ''0xb109'' then Some \<lparr>number = 1090, hash = ''0xb109''\<rparr>
                       else None),
      proofOfIndexing = (\<lambda>d b i. if number b = 1090 then Some ''0xp2'' else Some ''0xq2'')\<rparr>"

text \<open>The same blocks, and a graph node that has no POI to give.\<close>

definition reads_unavailable :: DisputeReads where
  "reads_unavailable = reads_available\<lparr>proofOfIndexing := (\<lambda>d b i. None)\<rparr>"

text \<open>The dispute the identifier builds for \<open>alloc_D2\<close> on network
  \<open>''eip155:1''\<close> from \<open>reads_available\<close>, and the one it builds from
  \<open>reads_unavailable\<close>.\<close>

definition dispute_D2_valid :: POIDisputeAttributes where
  "dispute_D2_valid =
     \<lparr>allocationID = ''0xa2'', subgraphDeploymentID = ''QmD2'',
      allocationIndexer_dispute = ''0xi2'', allocationAmount_dispute = 1000,
      allocationProof = Some ''0xp2'', closedEpoch = 110,
      closedEpochReferenceProof = Some ''0xq2'',
      closedEpochStartBlockHash = Some ''0xb110'', closedEpochStartBlockNumber = Some 1100,
      previousEpochReferenceProof = Some ''0xp2'',
      previousEpochStartBlockHash_dispute = Some ''0xb109'',
      previousEpochStartBlockNumber_dispute = Some 1090,
      status = ''valid'', protocolNetwork_dispute = ''eip155:1''\<rparr>"

definition dispute_D2_unavailable :: POIDisputeAttributes where
  "dispute_D2_unavailable =
     dispute_D2_valid\<lparr>closedEpochReferenceProof := None, previousEpochReferenceProof := None,
       status := ''reference_unavailable''\<rparr>"

text \<open>A parser that knows the hex identifiers of \<open>D1\<close>, \<open>D2\<close> and \<open>D3\<close>.\<close>

definition parse_known :: parser where
  "parse_known s =
     (if s = ''0x01'' then Some D1 else if s = ''0x02'' then Some D2
      else if s = ''0x03'' then Some D3 else None)"

text \<open>The clock stands at 2 000 000 seconds during the whole call.\<close>

definition clock :: "nat \<Rightarrow> int" where
  "clock i = 2000000000"

text \<open>A subgraph whose latest version 1 deploys \<open>D2\<close> and was created ten seconds
  ago, and whose version 0 deploys \<open>D1\<close>; and a second subgraph with the same
  history under another name.\<close>

definition subgraph_SG :: Subgraph where
  "subgraph_SG = \<lparr>id_sg = ''0xSG'', versionCount = 2,
     versions = [\<lparr>version = 0, createdAt = 1000, deployment_v = D1\<rparr>,
                 \<lparr>version = 1, createdAt = 1999990, deployment_v = D2\<rparr>]\<rparr>"

definition subgraph_SH :: Subgraph where
  "subgraph_SH = subgraph_SG\<lparr>id_sg := ''0xSH''\<rparr>"

definition rule_on :: "string \<Rightarrow> SubgraphIdentifierType \<Rightarrow> IndexingRuleAttributes" where
  "rule_on s t = rule_always\<lparr>identifier := s, identifierType := t\<rparr>"

text \<open>A network in manual mode with no active and no closed allocation.\<close>

definition net_manual :: Network where
  "net_manual = net_auto\<lparr>allocationManagementMode := MANUAL\<rparr>"

text \<open>An offchain rule for the deployment \<open>D1\<close>.\<close>

definition rule_offchain_D1 :: IndexingRuleAttributes where
  "rule_offchain_D1 = (rule_on ''0x01'' DEPLOYMENT)\<lparr>decisionBasis := OFFCHAIN\<rparr>"

section \<open>Facts about the helpers\<close>

lemma findIndex_Some_iff:
  "findIndex P xs = Some i \<longleftrightarrow> i < length xs \<and> P (xs ! i) \<and> (\<forall>j<i. \<not> P (xs ! j))"
proof (induction xs arbitrary: i)
  case Nil
  then show ?case by simp
next
  case (Cons x xs)
  show ?case
  proof (cases "P x")
    case True
    then show ?thesis by (cases i) auto
  next
    case False
    show ?thesis
    proof (cases i)
      case 0
      with False show ?thesis by auto
    next
      case (Suc k)
      have "(\<forall>j<Suc k. \<not> P ((x # xs) ! j)) \<longleftrightarrow> (\<forall>j<k. \<not> P (xs ! j))"
        using False by (auto simp: less_Suc_eq_0_disj)
      with False Suc Cons.IH [of k] show ?thesis by auto
    qed
  qed
qed

lemma findIndex_None_iff: "findIndex P xs = None \<longleftrightarrow> (\<forall>x\<in>set xs. \<not> P x)"
  by (induction xs) auto

lemma set_filter_indexed:
  "set (filter_indexed f xs) = {xs ! i | i. i < length xs \<and> f (xs ! i) i xs}"
proof -
  have "set (filter_indexed f xs) =
        fst ` {p \<in> set (zip xs [0..<length xs]). f (fst p) (snd p) xs}"
    by (simp add: filter_indexed_def case_prod_unfold)
  also have "\<dots> = {xs ! i | i. i < length xs \<and> f (xs ! i) i xs}"
    by (auto simp: set_zip image_iff) force
  finally show ?thesis .
qed

lemma deploymentInList_iff:
  "deploymentInList list d \<longleftrightarrow> bytes32 d \<in> bytes32 ` set list"
proof -
  have "deploymentInList list d \<longleftrightarrow> (\<exists>x\<in>set list. bytes32 x = bytes32 d)"
    by (auto simp: deploymentInList_def find_None_iff)
  also have "\<dots> \<longleftrightarrow> bytes32 d \<in> bytes32 ` set list"
    by (metis (no_types) image_iff)
  finally show ?thesis .
qed

lemma bytes32_uniqueDeployments:
  "bytes32 ` set (uniqueDeployments ds) = bytes32 ` set ds"
proof
  show "bytes32 ` set (uniqueDeployments ds) \<subseteq> bytes32 ` set ds"
    by (auto simp: uniqueDeployments_def set_filter_indexed)
next
  show "bytes32 ` set ds \<subseteq> bytes32 ` set (uniqueDeployments ds)"
  proof
    fix b assume "b \<in> bytes32 ` set ds"
    then obtain d where d: "d \<in> set ds" "b = bytes32 d" by auto
    then have "findIndex (\<lambda>w. bytes32 d = bytes32 w) ds \<noteq> None"
      by (auto simp: findIndex_None_iff)
    then obtain i where i: "findIndex (\<lambda>w. bytes32 d = bytes32 w) ds = Some i" by auto
    then have "i < length ds" and eq: "bytes32 d = bytes32 (ds ! i)"
      by (auto simp: findIndex_Some_iff)
    moreover from i eq have "uniqueDeploymentsOnly (ds ! i) i ds"
      by (simp add: uniqueDeploymentsOnly_def)
    ultimately have "ds ! i \<in> set (uniqueDeployments ds)"
      by (auto simp: uniqueDeployments_def set_filter_indexed)
    with eq d show "b \<in> bytes32 ` set (uniqueDeployments ds)" by auto
  qed
qed

lemma bytes32_pushIfMissing:
  "bytes32 ` set (pushIfMissing t d) = insert (bytes32 d) (bytes32 ` set t)"
  by (auto simp: pushIfMissing_def deploymentInList_iff)

lemma bytes32_foldl_pushIfMissing:
  "bytes32 ` set (foldl pushIfMissing t ds) = bytes32 ` set t \<union> bytes32 ` set ds"
  by (induction ds arbitrary: t) (auto simp: bytes32_pushIfMissing)

lemma bytes32_foldl_networkSubgraph:
  "bytes32 ` set (foldl (\<lambda>t (k, network).
                 case networkSubgraph_deployment network of
                   None \<Rightarrow> t
                 | Some networkDeploymentID \<Rightarrow> pushIfMissing t networkDeploymentID) t ns) =
   bytes32 ` set t \<union>
   bytes32 ` {d. \<exists>n \<in> snd ` set ns. networkSubgraph_deployment n = Some d}"
proof (induction ns arbitrary: t)
  case Nil
  then show ?case by simp
next
  case (Cons kn ns)
  obtain k n where kn: "kn = (k, n)" by (cases kn)
  show ?case
  proof (cases "networkSubgraph_deployment n")
    case None
    with kn Cons.IH [of t] show ?thesis by auto
  next
    case (Some d)
    with kn Cons.IH [of "pushIfMissing t d"] show ?thesis
      by (auto simp: bytes32_pushIfMissing)
  qed
qed

lemma bytes32_networkSubgraphTargets:
  "bytes32 ` set (networkSubgraphTargets eager multiNetworks t) =
     bytes32 ` set t \<union>
     (if eager
      then bytes32 ` {d. \<exists>n \<in> snd ` set multiNetworks. networkSubgraph_deployment n = Some d}
      else {})"
proof (cases eager)
  case True
  then show ?thesis
    unfolding networkSubgraphTargets_def
    using bytes32_foldl_networkSubgraph [of t multiNetworks] by (simp only: if_True)
next
  case False
  then show ?thesis by (simp add: networkSubgraphTargets_def)
qed

lemma bytes32_augmentedTargets:
  "bytes32 ` set (augmentedTargets eager multiNetworks offchainSubgraphs t) =
     bytes32 ` set t \<union> bytes32 ` set offchainSubgraphs \<union>
     (if eager
      then bytes32 ` {d. \<exists>n \<in> snd ` set multiNetworks. networkSubgraph_deployment n = Some d}
      else {})"
  by (auto simp: augmentedTargets_def bytes32_foldl_pushIfMissing
        bytes32_networkSubgraphTargets)

lemma bytes32_filter:
  "bytes32 ` set (filter (\<lambda>d. Q (bytes32 d)) ds) = {b \<in> bytes32 ` set ds. Q b}"
  by auto

lemma bytes32_deploy:
  "bytes32 ` set (fst (deploymentChanges eager multiNetworks offchainSubgraphs active target
        eligible)) =
     bytes32 ` set (augmentedTargets eager multiNetworks offchainSubgraphs target)
       - bytes32 ` set active"
proof -
  let ?t = "uniqueDeployments (augmentedTargets eager multiNetworks offchainSubgraphs target)"
  let ?a = "uniqueDeployments active"
  have "bytes32 ` set (filter (\<lambda>d. \<not> deploymentInList ?a d) ?t) =
        {b \<in> bytes32 ` set ?t. b \<notin> bytes32 ` set ?a}"
    unfolding deploymentInList_iff by (rule bytes32_filter)
  then show ?thesis
    by (auto simp: deploymentChanges_def Let_def bytes32_uniqueDeployments)
qed

lemma bytes32_remove:
  "bytes32 ` set (snd (deploymentChanges eager multiNetworks offchainSubgraphs active target
        eligible)) =
     bytes32 ` set active
       - (bytes32 ` set (augmentedTargets eager multiNetworks offchainSubgraphs target)
          \<union> bytes32 ` subgraphDeployment_id ` set eligible)"
proof -
  let ?t = "uniqueDeployments (augmentedTargets eager multiNetworks offchainSubgraphs target)"
  let ?a = "uniqueDeployments active"
  let ?e = "uniqueDeployments (map subgraphDeployment_id eligible)"
  have "bytes32 ` set (filter (\<lambda>d. \<not> deploymentInList ?t d \<and> \<not> deploymentInList ?e d) ?a) =
        {b \<in> bytes32 ` set ?a. b \<notin> bytes32 ` set ?t \<and> b \<notin> bytes32 ` set ?e}"
    unfolding deploymentInList_iff
    by (rule bytes32_filter [of "\<lambda>b. b \<notin> bytes32 ` set ?t \<and> b \<notin> bytes32 ` set ?e"])
  then show ?thesis
    by (auto simp: deploymentChanges_def Let_def bytes32_uniqueDeployments)
qed

lemma Remove_calls:
  "{d. Remove d \<in> set (reconcileDeployments eager multiNetworks offchainSubgraphs active
        target eligible)} =
   set (snd (deploymentChanges eager multiNetworks offchainSubgraphs active target eligible))"
  by (cases "deploymentChanges eager multiNetworks offchainSubgraphs active target eligible")
     (auto simp: reconcileDeployments_def)

lemma Ensure_calls:
  "{d. \<exists>name. Ensure name d \<in> set (reconcileDeployments eager multiNetworks offchainSubgraphs
        active target eligible)} =
   set (fst (deploymentChanges eager multiNetworks offchainSubgraphs active target eligible))"
  by (cases "deploymentChanges eager multiNetworks offchainSubgraphs active target eligible")
     (auto simp: reconcileDeployments_def)

section \<open>Claims about the deployment reconciler\<close>

text \<open>
  Claim C1. For every input of \<^verbatim>\<open>reconcileDeployments\<close>, the deployments handed to
  \<^verbatim>\<open>graphNode.remove\<close> are the list \<open>remove\<close>, and compared by \<open>bytes32\<close> that
  list is the active deployments minus the union of the target deployments and the
  deployments of the eligible allocations. The target deployments are the array as
  the function has augmented it when it computes \<open>remove\<close>: the ones it was given,
  the static offchain list, and the meta-subgraph deployments of the networks when
  the un-awaited callbacks have already run. Hence a deployment that backs an
  eligible allocation is never removed, whether or not a rule targets it.
\<close>

theorem reconcileDeployments_remove_set:
  "{d. Remove d \<in> set (reconcileDeployments eager multiNetworks offchainSubgraphs active
        target eligible)} =
     set (snd (deploymentChanges eager multiNetworks offchainSubgraphs active target eligible))
   \<and> bytes32 ` set (snd (deploymentChanges eager multiNetworks offchainSubgraphs active target
        eligible)) =
       bytes32 ` set active
         - (bytes32 ` set (augmentedTargets eager multiNetworks offchainSubgraphs target)
            \<union> bytes32 ` subgraphDeployment_id ` set eligible)
   \<and> bytes32 ` set (augmentedTargets eager multiNetworks offchainSubgraphs target) =
       bytes32 ` set target \<union> bytes32 ` set offchainSubgraphs \<union>
       (if eager
        then bytes32 ` {d. \<exists>n \<in> snd ` set multiNetworks. networkSubgraph_deployment n = Some d}
        else {})
   \<and> bytes32 ` set (snd (deploymentChanges eager multiNetworks offchainSubgraphs active target
        eligible))
       \<inter> bytes32 ` subgraphDeployment_id ` set eligible = {}"
proof (intro conjI)
  show "bytes32 ` set (snd (deploymentChanges eager multiNetworks offchainSubgraphs active
          target eligible))
        \<inter> bytes32 ` subgraphDeployment_id ` set eligible = {}"
    unfolding bytes32_remove by blast
qed (rule Remove_calls bytes32_remove bytes32_augmentedTargets)+

text \<open>The third scenario of the specification: \<open>D1\<close> and \<open>D2\<close> are active, only
  \<open>D1\<close> is a target, and an eligible allocation sits on \<open>D2\<close>; nothing is
  removed.\<close>

theorem reconcileDeployments_remove_set_witness:
  "{d. Remove d \<in> set (reconcileDeployments False [] [] [D1, D2] [D1] [alloc_D2])} = {}
   \<and> bytes32 ` set (snd (deploymentChanges False [] [] [D1, D2] [D1] [alloc_D2])) = {}"
proof -
  note inst = reconcileDeployments_remove_set
    [of False "[]" "[]" "[D1, D2]" "[D1]" "[alloc_D2]"]
  have t: "augmentedTargets False [] [] [D1] = [D1]"
    by (simp add: augmentedTargets_def networkSubgraphTargets_def)
  have e: "bytes32 ` set (snd (deploymentChanges False [] [] [D1, D2] [D1] [alloc_D2])) = {}"
    unfolding inst [THEN conjunct2, THEN conjunct1] t
    by (simp add: D1_def D2_def alloc_D2_def)
  then have "snd (deploymentChanges False [] [] [D1, D2] [D1] [alloc_D2]) = []"
    by simp
  with inst [THEN conjunct1] show ?thesis by simp
qed

text \<open>
  Claim C8. For every input of \<^verbatim>\<open>reconcileDeployments\<close>, \<open>deploy\<close> and \<open>remove\<close>
  are disjoint by \<open>bytes32\<close>: no deployment of \<open>deploy\<close> is in the active list,
  every deployment of \<open>remove\<close> is, and so no deployment is handed both to
  \<^verbatim>\<open>graphNode.ensure\<close> and to \<^verbatim>\<open>graphNode.remove\<close> in one cycle.
\<close>

theorem reconcileDeployments_deploy_remove_disjoint:
  "bytes32 ` set (fst (deploymentChanges eager multiNetworks offchainSubgraphs active target
        eligible))
     \<inter> bytes32 ` set active = {}
   \<and> bytes32 ` set (snd (deploymentChanges eager multiNetworks offchainSubgraphs active target
        eligible))
       \<subseteq> bytes32 ` set active
   \<and> bytes32 ` set (fst (deploymentChanges eager multiNetworks offchainSubgraphs active target
        eligible))
       \<inter> bytes32 ` set (snd (deploymentChanges eager multiNetworks offchainSubgraphs active
            target eligible)) = {}
   \<and> bytes32 ` {d. \<exists>name. Ensure name d \<in> set (reconcileDeployments eager multiNetworks
          offchainSubgraphs active target eligible)}
       \<inter> bytes32 ` {d. Remove d \<in> set (reconcileDeployments eager multiNetworks
            offchainSubgraphs active target eligible)} = {}"
  unfolding Ensure_calls Remove_calls bytes32_deploy bytes32_remove by blast

text \<open>With \<open>D1\<close> active, \<open>D2\<close> the only target and no eligible allocation,
  \<open>D2\<close> is deployed and \<open>D1\<close> removed.\<close>

theorem reconcileDeployments_deploy_remove_disjoint_witness:
  "bytes32 ` set (fst (deploymentChanges False [] [] [D1] [D2] [])) = {''0x02''}
   \<and> bytes32 ` set (snd (deploymentChanges False [] [] [D1] [D2] [])) = {''0x01''}
   \<and> bytes32 ` set (fst (deploymentChanges False [] [] [D1] [D2] []))
       \<inter> bytes32 ` set (snd (deploymentChanges False [] [] [D1] [D2] [])) = {}"
proof -
  have d: "bytes32 ` set (fst (deploymentChanges False [] [] [D1] [D2] [])) = {''0x02''}"
    by (simp add: bytes32_deploy augmentedTargets_def networkSubgraphTargets_def D1_def D2_def)
  have r: "bytes32 ` set (snd (deploymentChanges False [] [] [D1] [D2] [])) = {''0x01''}"
    by (simp add: bytes32_remove augmentedTargets_def networkSubgraphTargets_def D1_def D2_def)
  show ?thesis
    using reconcileDeployments_deploy_remove_disjoint [of False "[]" "[]" "[D1]" "[D2]" "[]"] d r
    by simp
qed

section \<open>Facts about the rule normaliser\<close>

lemma convertRule_not_SUBGRAPH:
  "identifierType r \<noteq> SUBGRAPH \<Longrightarrow> convertRule P sgs buf t vis r unv = Inr (r, [])"
  by (simp add: convertRule_def)

lemma convertRule_no_subgraph:
  "find (\<lambda>sg. id_sg sg = identifier r) sgs = None \<Longrightarrow>
     convertRule P sgs buf t vis r unv = Inr (r, [])"
  by (simp add: convertRule_def)

lemma convertRule_no_latest:
  "find (\<lambda>sg. id_sg sg = identifier r) sgs = Some sg \<Longrightarrow>
   find (\<lambda>v. version v = versionCount sg - 1) (versions sg) = None \<Longrightarrow>
     convertRule P sgs buf t vis r unv = Inr (r, [])"
  by (simp add: convertRule_def)

lemma convertRule_latest:
  assumes "identifierType r = SUBGRAPH"
    and "find (\<lambda>sg. id_sg sg = identifier r) sgs = Some sg"
    and "find (\<lambda>v. version v = versionCount sg - 1) (versions sg) = Some lv"
  shows "convertRule P sgs buf t vis r unv =
     (case deploymentRuleInList P (vis @ r # unv) (deployment_v lv) of
        Inl e \<Rightarrow> Inl e
      | Inr inList \<Rightarrow>
          if createdAt lv > t div 1000 - buf then
            (case find (\<lambda>v. version v = versionCount sg - 1 - 1) (versions sg) of
               None \<Rightarrow> Inr (rewritten inList r lv, [])
             | Some pv \<Rightarrow>
                 (case deploymentRuleInList P (vis @ rewritten inList r lv # unv)
                         (deployment_v pv) of
                    Inl e \<Rightarrow> Inl e
                  | Inr previousInList \<Rightarrow>
                      if \<not> previousInList
                      then Inr (rewritten inList r lv,
                             [(rewritten inList r lv)
                                \<lparr>identifier := toString (deployment_v pv),
                                 identifierType := DEPLOYMENT\<rparr>])
                      else Inr (rewritten inList r lv, [])))
          else Inr (rewritten inList r lv, []))"
  using assms
  by (simp add: convertRule_def rewritten_def Let_def split: sum.splits option.splits)

lemma convertRule_latest_Inr:
  assumes "identifierType r = SUBGRAPH"
    and "find (\<lambda>sg. id_sg sg = identifier r) sgs = Some sg"
    and "find (\<lambda>v. version v = versionCount sg - 1) (versions sg) = Some lv"
    and run: "convertRule P sgs buf t vis r unv = Inr (r', added)"
  shows "\<exists>inList. deploymentRuleInList P (vis @ r # unv) (deployment_v lv) = Inr inList
      \<and> r' = rewritten inList r lv
      \<and> (added = [] \<or>
          (\<exists>pv. find (\<lambda>v. version v = versionCount sg - 1 - 1) (versions sg) = Some pv \<and>
             added = [r'\<lparr>identifier := toString (deployment_v pv),
                          identifierType := DEPLOYMENT\<rparr>]))
      \<and> (added \<noteq> [] \<longleftrightarrow>
           createdAt lv > t div 1000 - buf \<and>
           (\<exists>pv. find (\<lambda>v. version v = versionCount sg - 1 - 1) (versions sg) = Some pv \<and>
              deploymentRuleInList P (vis @ r' # unv) (deployment_v pv) = Inr False))"
  using run unfolding convertRule_latest [OF assms(1-3)]
  by (auto split: sum.splits option.splits if_splits)

text \<open>What the callback may change: the identifier and the type of a rule of type
  \<open>SUBGRAPH\<close>, nothing else; what it pushes is a copy of such a rule with a new
  identifier and the type \<open>DEPLOYMENT\<close>.\<close>

lemma rewritten_frame:
  "\<exists>idf ty. rewritten b r lv = r\<lparr>identifier := idf, identifierType := ty\<rparr>"
proof (cases b)
  case True
  have "r = r\<lparr>identifier := identifier r, identifierType := identifierType r\<rparr>" by simp
  with True show ?thesis unfolding rewritten_def by (metis (full_types))
next
  case False
  then show ?thesis unfolding rewritten_def by auto
qed

lemma rewritten_copy:
  "(rewritten b r lv)\<lparr>identifier := s, identifierType := DEPLOYMENT\<rparr> =
     r\<lparr>identifier := s, identifierType := DEPLOYMENT\<rparr>"
  by (simp add: rewritten_def)

lemma convertRule_frame:
  assumes run: "convertRule P sgs buf t vis r unv = Inr (r', added)"
  shows "(\<exists>idf ty. r' = r\<lparr>identifier := idf, identifierType := ty\<rparr>)
     \<and> (identifierType r \<noteq> SUBGRAPH \<longrightarrow> r' = r \<and> added = [])
     \<and> (\<forall>x\<in>set added. identifierType r = SUBGRAPH \<and>
           (\<exists>idf. x = r\<lparr>identifier := idf, identifierType := DEPLOYMENT\<rparr>))"
proof -
  have same: "?thesis" if "r' = r" "added = []"
  proof -
    have "r = r\<lparr>identifier := identifier r, identifierType := identifierType r\<rparr>" by simp
    then have "\<exists>idf ty. r = r\<lparr>identifier := idf, identifierType := ty\<rparr>" by blast
    with that show ?thesis by simp
  qed
  show ?thesis
  proof (cases "identifierType r = SUBGRAPH")
    case False
    with run convertRule_not_SUBGRAPH [of r P sgs buf t vis unv] show ?thesis
      by (intro same) simp_all
  next
    case True
    show ?thesis
    proof (cases "find (\<lambda>sg. id_sg sg = identifier r) sgs")
      case None
      with run convertRule_no_subgraph [of r sgs P buf t vis unv] show ?thesis
        by (intro same) simp_all
    next
      case (Some sg)
      show ?thesis
      proof (cases "find (\<lambda>v. version v = versionCount sg - 1) (versions sg)")
        case None
        with run convertRule_no_latest [OF Some, of P buf t vis unv] show ?thesis
          by (intro same) simp_all
      next
        case (Some lv)
        from convertRule_latest_Inr [OF True \<open>find (\<lambda>sg. id_sg sg = identifier r) sgs = Some sg\<close>
            Some run]
        obtain inList where r': "r' = rewritten inList r lv"
          and added: "added = [] \<or>
            (\<exists>pv::SubgraphVersion.
               added = [r'\<lparr>identifier := toString (deployment_v pv),
                            identifierType := DEPLOYMENT\<rparr>])"
          by blast
        from added have "\<forall>x\<in>set added.
            \<exists>idf. x = r\<lparr>identifier := idf, identifierType := DEPLOYMENT\<rparr>"
          unfolding r' rewritten_copy by auto
        with True r' rewritten_frame [of inList r lv] show ?thesis by simp
      qed
    qed
  qed
qed

text \<open>The loop, unrolled: the result is the visited rules, one rule per unvisited
  rule as its callback left it, the pending \<open>toAdd\<close> and what the callbacks pushed;
  the callback for the unvisited rule \<open>i\<close> ran on the array in which the rules
  before it are already in their final form.\<close>

lemma convertLoop_Inr:
  "convertLoop P now sgs buf vis todo toAdd = Inr out \<Longrightarrow>
   \<exists>finals adds.
      length finals = length todo \<and> length adds = length todo \<and>
      out = vis @ finals @ toAdd @ concat adds \<and>
      (\<forall>i<length todo.
         convertRule P sgs buf (now (length vis + i)) (vis @ take i finals) (todo ! i)
           (drop (Suc i) todo) = Inr (finals ! i, adds ! i))"
proof (induction todo arbitrary: vis toAdd)
  case Nil
  then show ?case by simp
next
  case (Cons r rest)
  from Cons.prems obtain r' added where
    step: "convertRule P sgs buf (now (length vis)) vis r rest = Inr (r', added)"
    and loop: "convertLoop P now sgs buf (vis @ [r']) rest (toAdd @ added) = Inr out"
    by (auto split: sum.splits)
  from Cons.IH [OF loop] obtain finals adds where
    len: "length finals = length rest" "length adds = length rest"
    and out: "out = (vis @ [r']) @ finals @ (toAdd @ added) @ concat adds"
    and steps: "\<forall>i<length rest.
         convertRule P sgs buf (now (length (vis @ [r']) + i)) ((vis @ [r']) @ take i finals)
           (rest ! i) (drop (Suc i) rest) = Inr (finals ! i, adds ! i)"
    by blast
  have "\<forall>i<length (r # rest).
         convertRule P sgs buf (now (length vis + i)) (vis @ take i (r' # finals))
           ((r # rest) ! i) (drop (Suc i) (r # rest)) = Inr ((r' # finals) ! i, (added # adds) ! i)"
  proof (intro allI impI)
    fix i assume i: "i < length (r # rest)"
    show "convertRule P sgs buf (now (length vis + i)) (vis @ take i (r' # finals))
           ((r # rest) ! i) (drop (Suc i) (r # rest)) = Inr ((r' # finals) ! i, (added # adds) ! i)"
    proof (cases i)
      case 0
      with step show ?thesis by simp
    next
      case (Suc j)
      with i have "j < length rest" by simp
      with steps Suc show ?thesis by simp
    qed
  qed
  moreover have "out = vis @ (r' # finals) @ toAdd @ concat (added # adds)"
    using out by simp
  moreover have "length (r' # finals) = length (r # rest)" "length (added # adds) = length (r # rest)"
    using len by simp_all
  ultimately show ?case by blast
qed

lemma convert_Inr:
  assumes "convertSubgraphBasedRulesToDeploymentBased P now rules sgs buf = Inr out"
  shows "\<exists>adds.
      length adds = length rules \<and> length rules \<le> length out \<and>
      drop (length rules) out = concat adds \<and>
      (\<forall>i<length rules.
         convertRule P sgs buf (now i) (take i out) (rules ! i) (drop (Suc i) rules)
           = Inr (out ! i, adds ! i))"
proof -
  from convertLoop_Inr [OF assms [unfolded convertSubgraphBasedRulesToDeploymentBased_def]]
  obtain finals adds where
    len: "length finals = length rules" "length adds = length rules"
    and out: "out = finals @ concat adds"
    and steps: "\<forall>i<length rules.
         convertRule P sgs buf (now i) (take i finals) (rules ! i) (drop (Suc i) rules)
           = Inr (finals ! i, adds ! i)"
    by auto
  have "take i out = take i finals" "out ! i = finals ! i" if "i < length rules" for i
    using that len out by (simp_all add: nth_append)
  with steps have "\<forall>i<length rules.
         convertRule P sgs buf (now i) (take i out) (rules ! i) (drop (Suc i) rules)
           = Inr (out ! i, adds ! i)"
    by simp
  moreover have "drop (length rules) out = concat adds" "length rules \<le> length out"
    using len out by simp_all
  ultimately show ?thesis using len(2) by blast
qed

subsection \<open>The normaliser returns when the constructor accepts the identifiers\<close>

lemma deploymentRuleInList_total:
  "\<forall>r\<in>set list. identifierType r = DEPLOYMENT \<longrightarrow> P (identifier r) \<noteq> None \<Longrightarrow>
     \<exists>b. deploymentRuleInList P list d = Inr b"
  by (induction list) auto

lemma convertRule_total:
  assumes rules: "\<forall>x\<in>set (vis @ r # unv). identifierType x = DEPLOYMENT \<longrightarrow> P (identifier x) \<noteq> None"
    and sgs: "\<forall>sg\<in>set sgs. \<forall>v\<in>set (versions sg). P (toString (deployment_v v)) \<noteq> None"
  shows "\<exists>r' added. convertRule P sgs buf t vis r unv = Inr (r', added) \<and>
     (\<forall>x\<in>set (vis @ r' # unv). identifierType x = DEPLOYMENT \<longrightarrow> P (identifier x) \<noteq> None)"
proof -
  have same: ?thesis if "convertRule P sgs buf t vis r unv = Inr (r, [])"
    using that rules by blast
  show ?thesis
  proof (cases "identifierType r = SUBGRAPH")
    case False
    then show ?thesis by (intro same convertRule_not_SUBGRAPH)
  next
    case True
    show ?thesis
    proof (cases "find (\<lambda>sg. id_sg sg = identifier r) sgs")
      case None
      then show ?thesis by (intro same convertRule_no_subgraph)
    next
      case (Some sg)
      then have sg: "sg \<in> set sgs" by (auto simp: find_Some_iff)
      show ?thesis
      proof (cases "find (\<lambda>v. version v = versionCount sg - 1) (versions sg)")
        case None
        with Some show ?thesis by (intro same convertRule_no_latest)
      next
        case (Some lv)
        then have "lv \<in> set (versions sg)" by (auto simp: find_Some_iff)
        with sgs sg have lv: "P (toString (deployment_v lv)) \<noteq> None" by blast
        from deploymentRuleInList_total [OF rules] obtain inList where
          inList: "deploymentRuleInList P (vis @ r # unv) (deployment_v lv) = Inr inList"
          by blast
        let ?r = "rewritten inList r lv"
        have r_ok: "identifierType ?r = DEPLOYMENT \<longrightarrow> P (identifier ?r) \<noteq> None"
          using lv True by (simp add: rewritten_def)
        with rules have rules':
          "\<forall>x\<in>set (vis @ ?r # unv). identifierType x = DEPLOYMENT \<longrightarrow> P (identifier x) \<noteq> None"
          by auto
        have prev: "\<exists>b. deploymentRuleInList P (vis @ ?r # unv) d = Inr b" for d
          by (rule deploymentRuleInList_total [OF rules'])
        note eq = convertRule_latest
          [OF True \<open>find (\<lambda>sg. id_sg sg = identifier r) sgs = Some sg\<close> Some,
           of P buf t vis unv, unfolded inList]
        have "\<exists>added. convertRule P sgs buf t vis r unv = Inr (?r, added)"
        proof (cases "find (\<lambda>v. version v = versionCount sg - 1 - 1) (versions sg)")
          case None
          then show ?thesis unfolding eq by simp
        next
          case (Some pv)
          from prev [of "deployment_v pv"] obtain b where
            "deploymentRuleInList P (vis @ ?r # unv) (deployment_v pv) = Inr b" by blast
          with Some show ?thesis unfolding eq by simp
        qed
        with rules' show ?thesis by blast
      qed
    qed
  qed
qed

lemma convertLoop_total:
  assumes sgs: "\<forall>sg\<in>set sgs. \<forall>v\<in>set (versions sg). P (toString (deployment_v v)) \<noteq> None"
  shows "\<forall>x\<in>set (vis @ todo). identifierType x = DEPLOYMENT \<longrightarrow> P (identifier x) \<noteq> None \<Longrightarrow>
     \<exists>out. convertLoop P now sgs buf vis todo toAdd = Inr out"
proof (induction todo arbitrary: vis toAdd)
  case Nil
  then show ?case by simp
next
  case (Cons r rest)
  from convertRule_total [OF Cons.prems sgs, of buf "now (length vis)"]
  obtain r' added where
    step: "convertRule P sgs buf (now (length vis)) vis r rest = Inr (r', added)"
    and ok: "\<forall>x\<in>set (vis @ r' # rest). identifierType x = DEPLOYMENT \<longrightarrow> P (identifier x) \<noteq> None"
    by blast
  from ok have "\<forall>x\<in>set ((vis @ [r']) @ rest). identifierType x = DEPLOYMENT \<longrightarrow> P (identifier x) \<noteq> None"
    by simp
  from Cons.IH [OF this, of "toAdd @ added"] step show ?case by simp
qed

lemma convert_total:
  "identifiersParse P rules sgs \<Longrightarrow>
     \<exists>out. convertSubgraphBasedRulesToDeploymentBased P now rules sgs buf = Inr out"
  unfolding identifiersParse_def convertSubgraphBasedRulesToDeploymentBased_def
  using convertLoop_total [of sgs P "[]" rules now buf "[]"] by simp

section \<open>Claims about the rule normaliser\<close>

lemma convert_example_SG:
  "convertSubgraphBasedRulesToDeploymentBased parse_known clock
      [rule_on ''0x03'' DEPLOYMENT, rule_on ''0xSG'' SUBGRAPH] [subgraph_SG] 3600 =
     Inr [rule_on ''0x03'' DEPLOYMENT, rule_on ''0x02'' DEPLOYMENT, rule_on ''0x01'' DEPLOYMENT]"
  by (simp add: convertSubgraphBasedRulesToDeploymentBased_def convertRule_def Let_def
      rule_on_def subgraph_SG_def parse_known_def clock_def toString_def D1_def D2_def D3_def)

lemma convert_example_SG_SH:
  "convertSubgraphBasedRulesToDeploymentBased parse_known clock
      [rule_on ''0xSG'' SUBGRAPH, rule_on ''0xSH'' SUBGRAPH] [subgraph_SG, subgraph_SH] 3600 =
     Inr [rule_on ''0x02'' DEPLOYMENT, rule_on ''0xSH'' SUBGRAPH,
          rule_on ''0x01'' DEPLOYMENT, rule_on ''0x01'' DEPLOYMENT]"
  by (simp add: convertSubgraphBasedRulesToDeploymentBased_def convertRule_def Let_def
      rule_on_def subgraph_SG_def subgraph_SH_def parse_known_def clock_def toString_def
      D1_def D2_def D3_def)

lemma identifiersParse_example:
  "identifiersParse parse_known [rule_on ''0x03'' DEPLOYMENT, rule_on ''0xSG'' SUBGRAPH]
     [subgraph_SG]"
  by (simp add: identifiersParse_def rule_on_def subgraph_SG_def parse_known_def toString_def
      D1_def D2_def)

text \<open>
  Claim C10. \<^verbatim>\<open>convertSubgraphBasedRulesToDeploymentBased\<close> never removes or
  reorders rules. It returns whenever the constructor of deployment identifiers
  accepts the identifiers of the rules of type \<open>DEPLOYMENT\<close> and the deployments of
  the subgraphs' versions. The list it returns is at least as long as the input;
  its first entries are the input rules in their positions, each differing from the
  input rule in \<open>identifier\<close> and \<open>identifierType\<close> at most, and a rule whose type
  is not \<open>SUBGRAPH\<close> is returned unchanged; every entry after them is a copy of an
  input rule of type \<open>SUBGRAPH\<close> with another identifier and the type
  \<open>DEPLOYMENT\<close>.
\<close>

theorem convert_keeps_rules:
  "(identifiersParse P rules sgs \<longrightarrow>
      (\<exists>out. convertSubgraphBasedRulesToDeploymentBased P now rules sgs buf = Inr out))
   \<and> (\<forall>out. convertSubgraphBasedRulesToDeploymentBased P now rules sgs buf = Inr out \<longrightarrow>
         length rules \<le> length out
         \<and> (\<forall>i<length rules. identifierType (rules ! i) \<noteq> SUBGRAPH \<longrightarrow> out ! i = rules ! i)
         \<and> (\<forall>i<length rules. \<exists>idf ty.
               out ! i = (rules ! i)\<lparr>identifier := idf, identifierType := ty\<rparr>)
         \<and> (\<forall>x\<in>set (drop (length rules) out). \<exists>i<length rules. \<exists>idf.
               identifierType (rules ! i) = SUBGRAPH \<and>
               x = (rules ! i)\<lparr>identifier := idf, identifierType := DEPLOYMENT\<rparr>))"
proof -
  have total: "identifiersParse P rules sgs \<longrightarrow>
      (\<exists>out. convertSubgraphBasedRulesToDeploymentBased P now rules sgs buf = Inr out)"
    by (auto intro: convert_total)
  have frame: "length rules \<le> length out
         \<and> (\<forall>i<length rules. identifierType (rules ! i) \<noteq> SUBGRAPH \<longrightarrow> out ! i = rules ! i)
         \<and> (\<forall>i<length rules. \<exists>idf ty.
               out ! i = (rules ! i)\<lparr>identifier := idf, identifierType := ty\<rparr>)
         \<and> (\<forall>x\<in>set (drop (length rules) out). \<exists>i<length rules. \<exists>idf.
               identifierType (rules ! i) = SUBGRAPH \<and>
               x = (rules ! i)\<lparr>identifier := idf, identifierType := DEPLOYMENT\<rparr>)"
    if run: "convertSubgraphBasedRulesToDeploymentBased P now rules sgs buf = Inr out" for out
  proof -
    from convert_Inr [OF run] obtain adds where
      len: "length adds = length rules" "length rules \<le> length out"
      and tail: "drop (length rules) out = concat adds"
      and steps: "\<forall>i<length rules.
           convertRule P sgs buf (now i) (take i out) (rules ! i) (drop (Suc i) rules)
             = Inr (out ! i, adds ! i)"
      by blast
    note fr = convertRule_frame [OF steps [rule_format]]
    have a: "\<forall>i<length rules. identifierType (rules ! i) \<noteq> SUBGRAPH \<longrightarrow> out ! i = rules ! i"
      using fr by blast
    have b: "\<forall>i<length rules. \<exists>idf ty.
               out ! i = (rules ! i)\<lparr>identifier := idf, identifierType := ty\<rparr>"
      using fr by blast
    have c: "\<forall>x\<in>set (drop (length rules) out). \<exists>i<length rules. \<exists>idf.
               identifierType (rules ! i) = SUBGRAPH \<and>
               x = (rules ! i)\<lparr>identifier := idf, identifierType := DEPLOYMENT\<rparr>"
    proof
      fix x assume "x \<in> set (drop (length rules) out)"
      then obtain a where "a \<in> set adds" "x \<in> set a" unfolding tail by auto
      then obtain i where i: "i < length rules" "x \<in> set (adds ! i)"
        using len(1) by (auto simp: in_set_conv_nth)
      with fr [OF i(1)]
      show "\<exists>i<length rules. \<exists>idf. identifierType (rules ! i) = SUBGRAPH \<and>
              x = (rules ! i)\<lparr>identifier := idf, identifierType := DEPLOYMENT\<rparr>"
        by blast
    qed
    from len(2) a b c show ?thesis by (intro conjI)
  qed
  from total frame show ?thesis by (intro conjI allI impI) blast+
qed

text \<open>A rule for the deployment \<open>D3\<close> and a rule for the subgraph \<open>0xSG\<close>: the
  first is returned as it is, the second is rewritten to the latest deployment
  \<open>D2\<close>, and a copy for the previous deployment \<open>D1\<close> follows.\<close>

theorem convert_keeps_rules_witness:
  "identifiersParse parse_known [rule_on ''0x03'' DEPLOYMENT, rule_on ''0xSG'' SUBGRAPH]
     [subgraph_SG]
   \<and> (\<exists>out. convertSubgraphBasedRulesToDeploymentBased parse_known clock
       [rule_on ''0x03'' DEPLOYMENT, rule_on ''0xSG'' SUBGRAPH] [subgraph_SG] 3600 = Inr out)
   \<and> convertSubgraphBasedRulesToDeploymentBased parse_known clock
       [rule_on ''0x03'' DEPLOYMENT, rule_on ''0xSG'' SUBGRAPH] [subgraph_SG] 3600 =
     Inr [rule_on ''0x03'' DEPLOYMENT, rule_on ''0x02'' DEPLOYMENT, rule_on ''0x01'' DEPLOYMENT]
   \<and> length [rule_on ''0x03'' DEPLOYMENT, rule_on ''0xSG'' SUBGRAPH]
       \<le> length [rule_on ''0x03'' DEPLOYMENT, rule_on ''0x02'' DEPLOYMENT,
                 rule_on ''0x01'' DEPLOYMENT]
   \<and> [rule_on ''0x03'' DEPLOYMENT, rule_on ''0x02'' DEPLOYMENT, rule_on ''0x01'' DEPLOYMENT] ! 0
       = [rule_on ''0x03'' DEPLOYMENT, rule_on ''0xSG'' SUBGRAPH] ! 0"
proof -
  let ?rules = "[rule_on ''0x03'' DEPLOYMENT, rule_on ''0xSG'' SUBGRAPH]"
  let ?out = "[rule_on ''0x03'' DEPLOYMENT, rule_on ''0x02'' DEPLOYMENT,
               rule_on ''0x01'' DEPLOYMENT]"
  note inst = convert_keeps_rules [of parse_known ?rules "[subgraph_SG]" clock 3600]
  from inst [THEN conjunct1, rule_format, OF identifiersParse_example]
  have returns: "\<exists>out. convertSubgraphBasedRulesToDeploymentBased parse_known clock ?rules
      [subgraph_SG] 3600 = Inr out" .
  note frame = inst [THEN conjunct2, rule_format, OF convert_example_SG]
  from frame have len: "length ?rules \<le> length ?out"
    by (rule conjunct1)
  from frame have "\<forall>i<length ?rules. identifierType (?rules ! i) \<noteq> SUBGRAPH \<longrightarrow>
      ?out ! i = ?rules ! i"
    by (rule conjunct1 [OF conjunct2])
  from this [rule_format, of 0] have same: "?out ! 0 = ?rules ! 0"
    by (simp add: rule_on_def)
  from identifiersParse_example returns convert_example_SG len same
  show ?thesis by (intro conjI)
qed

text \<open>
  Claim C6, as stated, fails on the code. Two rules name the subgraphs \<open>0xSG\<close> and
  \<open>0xSH\<close>; both subgraphs are found, the latest version of both deploys \<open>D2\<close>
  and was created ten seconds ago, the previous version of both deploys \<open>D1\<close>.
  The first rule is rewritten to \<open>D2\<close>. The second rule stays of type
  \<open>SUBGRAPH\<close>, because a rule of the list now targets \<open>D2\<close>. And two copies for
  \<open>D1\<close> are appended, one per rule, with the same identifier on the same network:
  the copies pushed so far are not in the list that the second callback searches.
\<close>

theorem convert_counterexample:
  "convertSubgraphBasedRulesToDeploymentBased parse_known clock
      [rule_on ''0xSG'' SUBGRAPH, rule_on ''0xSH'' SUBGRAPH] [subgraph_SG, subgraph_SH] 3600 =
     Inr [rule_on ''0x02'' DEPLOYMENT, rule_on ''0xSH'' SUBGRAPH,
          rule_on ''0x01'' DEPLOYMENT, rule_on ''0x01'' DEPLOYMENT]
   \<and> find (\<lambda>sg. id_sg sg = identifier (rule_on ''0xSH'' SUBGRAPH)) [subgraph_SG, subgraph_SH]
       = Some subgraph_SH
   \<and> identifierType
        ([rule_on ''0x02'' DEPLOYMENT, rule_on ''0xSH'' SUBGRAPH,
          rule_on ''0x01'' DEPLOYMENT, rule_on ''0x01'' DEPLOYMENT] ! 1) = SUBGRAPH
   \<and> \<not> distinct (map (\<lambda>r. (protocolNetwork r, identifier r))
          [rule_on ''0x02'' DEPLOYMENT, rule_on ''0xSH'' SUBGRAPH,
           rule_on ''0x01'' DEPLOYMENT, rule_on ''0x01'' DEPLOYMENT])"
proof -
  have "find (\<lambda>sg. id_sg sg = identifier (rule_on ''0xSH'' SUBGRAPH)) [subgraph_SG, subgraph_SH]
       = Some subgraph_SH"
    by (simp add: rule_on_def subgraph_SG_def subgraph_SH_def)
  moreover have "identifierType
        ([rule_on ''0x02'' DEPLOYMENT, rule_on ''0xSH'' SUBGRAPH,
          rule_on ''0x01'' DEPLOYMENT, rule_on ''0x01'' DEPLOYMENT] ! 1) = SUBGRAPH"
    by (simp add: rule_on_def)
  moreover have "\<not> distinct (map (\<lambda>r. (protocolNetwork r, identifier r))
          [rule_on ''0x02'' DEPLOYMENT, rule_on ''0xSH'' SUBGRAPH,
           rule_on ''0x01'' DEPLOYMENT, rule_on ''0x01'' DEPLOYMENT])"
    by simp
  ultimately show ?thesis using convert_example_SG_SH by (intro conjI)
qed

text \<open>
  Claim C6, amended. Let the normaliser return \<open>out\<close>. The entries of \<open>out\<close> after
  the first \<open>length rules\<close> are what the rules pushed, rule by rule (\<open>adds ! i\<close>
  is what rule \<open>i\<close> pushed, nothing or one rule). For a rule \<open>i\<close> of type
  \<open>SUBGRAPH\<close> whose subgraph is found and whose latest version
  (\<open>version = versionCount - 1\<close>) is present:
  \<^item> the rule at position \<open>i\<close> of \<open>out\<close> has the type \<open>DEPLOYMENT\<close> and the
    string of the latest deployment as identifier if no rule of type \<open>DEPLOYMENT\<close>
    targets the latest deployment in the list as it stands when the rule is visited
    (the rules before it as returned, the rule and the rules after it as given), and
    is the input rule unchanged otherwise;
  \<^item> the rule pushes a copy of itself, as it then stands, with the string of the
    previous deployment as identifier and the type \<open>DEPLOYMENT\<close>, if and only if
    the latest version was created after \<open>floor(now / 1000) - buffer\<close>, the previous
    version (\<open>version = versionCount - 2\<close>) is present, and no rule of type
    \<open>DEPLOYMENT\<close> targets the previous deployment in the list as it then stands.
  Every other rule is returned unchanged and pushes nothing. Nothing is said about
  duplicates among the rules returned.
\<close>

theorem convert_normalises:
  assumes "convertSubgraphBasedRulesToDeploymentBased P now rules sgs buf = Inr out"
  shows "\<exists>adds.
      length adds = length rules \<and> drop (length rules) out = concat adds \<and>
      (\<forall>i<length rules.
         (\<forall>sg lv.
            identifierType (rules ! i) = SUBGRAPH \<and>
            find (\<lambda>sg. id_sg sg = identifier (rules ! i)) sgs = Some sg \<and>
            find (\<lambda>v. version v = versionCount sg - 1) (versions sg) = Some lv \<longrightarrow>
            (\<exists>inList.
               deploymentRuleInList P (take i out @ drop i rules) (deployment_v lv) = Inr inList \<and>
               out ! i =
                 (if inList then rules ! i
                  else (rules ! i)\<lparr>identifier := toString (deployment_v lv),
                                    identifierType := DEPLOYMENT\<rparr>)) \<and>
            (adds ! i = [] \<or>
             (\<exists>pv. find (\<lambda>v. version v = versionCount sg - 1 - 1) (versions sg) = Some pv \<and>
                adds ! i = [(out ! i)\<lparr>identifier := toString (deployment_v pv),
                                      identifierType := DEPLOYMENT\<rparr>])) \<and>
            (adds ! i \<noteq> [] \<longleftrightarrow>
               createdAt lv > now i div 1000 - buf \<and>
               (\<exists>pv. find (\<lambda>v. version v = versionCount sg - 1 - 1) (versions sg) = Some pv \<and>
                  deploymentRuleInList P (take (Suc i) out @ drop (Suc i) rules)
                    (deployment_v pv) = Inr False)))
         \<and> (identifierType (rules ! i) \<noteq> SUBGRAPH
            \<or> find (\<lambda>sg. id_sg sg = identifier (rules ! i)) sgs = None
            \<or> (\<exists>sg. find (\<lambda>sg. id_sg sg = identifier (rules ! i)) sgs = Some sg \<and>
                  find (\<lambda>v. version v = versionCount sg - 1) (versions sg) = None)
            \<longrightarrow> out ! i = rules ! i \<and> adds ! i = []))"
proof -
  from convert_Inr [OF assms] obtain adds where
    len: "length adds = length rules" "length rules \<le> length out"
    and tail: "drop (length rules) out = concat adds"
    and steps: "\<forall>i<length rules.
         convertRule P sgs buf (now i) (take i out) (rules ! i) (drop (Suc i) rules)
           = Inr (out ! i, adds ! i)"
    by blast
  have per_rule:
     "(\<forall>sg lv.
            identifierType (rules ! i) = SUBGRAPH \<and>
            find (\<lambda>sg. id_sg sg = identifier (rules ! i)) sgs = Some sg \<and>
            find (\<lambda>v. version v = versionCount sg - 1) (versions sg) = Some lv \<longrightarrow>
            (\<exists>inList.
               deploymentRuleInList P (take i out @ drop i rules) (deployment_v lv) = Inr inList \<and>
               out ! i =
                 (if inList then rules ! i
                  else (rules ! i)\<lparr>identifier := toString (deployment_v lv),
                                    identifierType := DEPLOYMENT\<rparr>)) \<and>
            (adds ! i = [] \<or>
             (\<exists>pv. find (\<lambda>v. version v = versionCount sg - 1 - 1) (versions sg) = Some pv \<and>
                adds ! i = [(out ! i)\<lparr>identifier := toString (deployment_v pv),
                                      identifierType := DEPLOYMENT\<rparr>])) \<and>
            (adds ! i \<noteq> [] \<longleftrightarrow>
               createdAt lv > now i div 1000 - buf \<and>
               (\<exists>pv. find (\<lambda>v. version v = versionCount sg - 1 - 1) (versions sg) = Some pv \<and>
                  deploymentRuleInList P (take (Suc i) out @ drop (Suc i) rules)
                    (deployment_v pv) = Inr False)))
         \<and> (identifierType (rules ! i) \<noteq> SUBGRAPH
            \<or> find (\<lambda>sg. id_sg sg = identifier (rules ! i)) sgs = None
            \<or> (\<exists>sg. find (\<lambda>sg. id_sg sg = identifier (rules ! i)) sgs = Some sg \<and>
                  find (\<lambda>v. version v = versionCount sg - 1) (versions sg) = None)
            \<longrightarrow> out ! i = rules ! i \<and> adds ! i = [])"
    if i: "i < length rules" for i
  proof -
    from steps i have step:
      "convertRule P sgs buf (now i) (take i out) (rules ! i) (drop (Suc i) rules)
         = Inr (out ! i, adds ! i)"
      by blast
    have before: "take i out @ rules ! i # drop (Suc i) rules = take i out @ drop i rules"
      using i by (simp add: Cons_nth_drop_Suc)
    have after: "take i out @ out ! i # drop (Suc i) rules = take (Suc i) out @ drop (Suc i) rules"
      using i len(2) by (simp add: take_Suc_conv_app_nth)
    have found: "(\<exists>inList.
               deploymentRuleInList P (take i out @ drop i rules) (deployment_v lv) = Inr inList \<and>
               out ! i =
                 (if inList then rules ! i
                  else (rules ! i)\<lparr>identifier := toString (deployment_v lv),
                                    identifierType := DEPLOYMENT\<rparr>)) \<and>
            (adds ! i = [] \<or>
             (\<exists>pv. find (\<lambda>v. version v = versionCount sg - 1 - 1) (versions sg) = Some pv \<and>
                adds ! i = [(out ! i)\<lparr>identifier := toString (deployment_v pv),
                                      identifierType := DEPLOYMENT\<rparr>])) \<and>
            (adds ! i \<noteq> [] \<longleftrightarrow>
               createdAt lv > now i div 1000 - buf \<and>
               (\<exists>pv. find (\<lambda>v. version v = versionCount sg - 1 - 1) (versions sg) = Some pv \<and>
                  deploymentRuleInList P (take (Suc i) out @ drop (Suc i) rules)
                    (deployment_v pv) = Inr False))"
      if "identifierType (rules ! i) = SUBGRAPH"
        "find (\<lambda>sg. id_sg sg = identifier (rules ! i)) sgs = Some sg"
        "find (\<lambda>v. version v = versionCount sg - 1) (versions sg) = Some lv" for sg lv
      using convertRule_latest_Inr [OF that step]
      unfolding before after rewritten_def by blast
    have other: "out ! i = rules ! i \<and> adds ! i = []"
      if "identifierType (rules ! i) \<noteq> SUBGRAPH
            \<or> find (\<lambda>sg. id_sg sg = identifier (rules ! i)) sgs = None
            \<or> (\<exists>sg. find (\<lambda>sg. id_sg sg = identifier (rules ! i)) sgs = Some sg \<and>
                  find (\<lambda>v. version v = versionCount sg - 1) (versions sg) = None)"
      using that step
        convertRule_not_SUBGRAPH [of "rules ! i" P sgs buf "now i" "take i out" "drop (Suc i) rules"]
        convertRule_no_subgraph [of "rules ! i" sgs P buf "now i" "take i out" "drop (Suc i) rules"]
        convertRule_no_latest [of "rules ! i" sgs _ P buf "now i" "take i out" "drop (Suc i) rules"]
      by (elim disjE exE conjE) simp_all
    from found other show ?thesis by blast
  qed
  from len(1) tail per_rule show ?thesis by blast
qed

text \<open>The second scenario of the specification, after a rule for \<open>D3\<close>: the rule
  for the subgraph \<open>0xSG\<close> is rewritten to the latest deployment \<open>D2\<close> and pushes
  a copy for the previous deployment \<open>D1\<close>.\<close>

theorem convert_normalises_witness:
  "convertSubgraphBasedRulesToDeploymentBased parse_known clock
       [rule_on ''0x03'' DEPLOYMENT, rule_on ''0xSG'' SUBGRAPH] [subgraph_SG] 3600 =
     Inr [rule_on ''0x03'' DEPLOYMENT, rule_on ''0x02'' DEPLOYMENT, rule_on ''0x01'' DEPLOYMENT]
   \<and> (\<exists>adds. length adds = (2::nat) \<and> adds ! 1 \<noteq> [] \<and>
         [rule_on ''0x01'' DEPLOYMENT] = concat adds)"
proof -
  let ?rules = "[rule_on ''0x03'' DEPLOYMENT, rule_on ''0xSG'' SUBGRAPH]"
  let ?out = "[rule_on ''0x03'' DEPLOYMENT, rule_on ''0x02'' DEPLOYMENT,
               rule_on ''0x01'' DEPLOYMENT]"
  let ?lv = "\<lparr>version = 1, createdAt = 1999990, deployment_v = D2\<rparr>"
  let ?pv = "\<lparr>version = 0, createdAt = 1000, deployment_v = D1\<rparr>"
  from convert_normalises [OF convert_example_SG] obtain adds where
    len: "length adds = length ?rules"
    and tail: "drop (length ?rules) ?out = concat adds"
    and per_rule: "\<forall>sg lv.
            identifierType (?rules ! 1) = SUBGRAPH \<and>
            find (\<lambda>sg. id_sg sg = identifier (?rules ! 1)) [subgraph_SG] = Some sg \<and>
            find (\<lambda>v. version v = versionCount sg - 1) (versions sg) = Some lv \<longrightarrow>
            (adds ! 1 \<noteq> [] \<longleftrightarrow>
               createdAt lv > clock 1 div 1000 - 3600 \<and>
               (\<exists>pv. find (\<lambda>v. version v = versionCount sg - 1 - 1) (versions sg) = Some pv \<and>
                  deploymentRuleInList parse_known (take (Suc 1) ?out @ drop (Suc 1) ?rules)
                    (deployment_v pv) = Inr False))"
    by (elim exE conjE) (erule allE [of _ 1], simp)
  have pre: "identifierType (?rules ! 1) = SUBGRAPH \<and>
      find (\<lambda>sg. id_sg sg = identifier (?rules ! 1)) [subgraph_SG] = Some subgraph_SG \<and>
      find (\<lambda>v. version v = versionCount subgraph_SG - 1) (versions subgraph_SG) = Some ?lv"
    by (simp add: rule_on_def subgraph_SG_def)
  have prev: "find (\<lambda>v. version v = versionCount subgraph_SG - 1 - 1) (versions subgraph_SG)
      = Some ?pv"
    by (simp add: subgraph_SG_def)
  have notIn: "deploymentRuleInList parse_known (take (Suc 1) ?out @ drop (Suc 1) ?rules)
      (deployment_v ?pv) = Inr False"
    by (simp add: rule_on_def parse_known_def toString_def D1_def D2_def D3_def)
  have recent: "createdAt ?lv > clock 1 div 1000 - 3600"
    by (simp add: clock_def)
  from per_rule [rule_format, OF pre] prev notIn recent have "adds ! 1 \<noteq> []"
    by blast
  with len tail have "length adds = (2::nat) \<and> adds ! 1 \<noteq> [] \<and>
         [rule_on ''0x01'' DEPLOYMENT] = concat adds"
    by simp
  then have "\<exists>adds. length adds = (2::nat) \<and> adds ! 1 \<noteq> [] \<and>
         [rule_on ''0x01'' DEPLOYMENT] = concat adds"
    by (rule exI)
  with convert_example_SG show ?thesis by (intro conjI)
qed

section \<open>Claims about the allocation reconciler\<close>

lemma networkSubgraphGuard_unchanged:
  "networkSubgraph_deployment n = None \<or> allocateOnNetworkSubgraph n \<or>
   (\<exists>d. networkSubgraph_deployment n = Some d \<and>
        findIndex (\<lambda>x. bytes32 (deployment x) = bytes32 d) ds = None)
   \<Longrightarrow> networkSubgraphGuard n ds = ds"
  by (auto simp: networkSubgraphGuard_def split: option.splits)

lemma networkSubgraphGuard_update:
  "networkSubgraph_deployment n = Some d \<Longrightarrow> \<not> allocateOnNetworkSubgraph n \<Longrightarrow>
   findIndex (\<lambda>x. bytes32 (deployment x) = bytes32 d) ds = Some i \<Longrightarrow>
   networkSubgraphGuard n ds = ds[i := (ds ! i)\<lparr>toAllocate := False\<rparr>]"
  by (simp add: networkSubgraphGuard_def)

lemma networkSubgraphGuard_length: "length (networkSubgraphGuard n ds) = length ds"
  by (simp add: networkSubgraphGuard_def split: option.splits)

lemma networkSubgraphGuard_changed:
  assumes k: "k < length ds" and ne: "networkSubgraphGuard n ds ! k \<noteq> ds ! k"
  shows "\<exists>d. networkSubgraph_deployment n = Some d
            \<and> \<not> allocateOnNetworkSubgraph n
            \<and> findIndex (\<lambda>x. bytes32 (deployment x) = bytes32 d) ds = Some k
            \<and> networkSubgraphGuard n ds ! k = (ds ! k)\<lparr>toAllocate := False\<rparr>"
proof (cases "networkSubgraph_deployment n")
  case None
  with ne show ?thesis by (simp add: networkSubgraphGuard_unchanged)
next
  case (Some d)
  show ?thesis
  proof (cases "allocateOnNetworkSubgraph n")
    case True
    with ne show ?thesis by (simp add: networkSubgraphGuard_unchanged)
  next
    case False
    show ?thesis
    proof (cases "findIndex (\<lambda>x. bytes32 (deployment x) = bytes32 d) ds")
      case None
      with Some have "networkSubgraphGuard n ds = ds"
        by (intro networkSubgraphGuard_unchanged) simp
      with ne show ?thesis by simp
    next
      case (Some i)
      note g = networkSubgraphGuard_update [OF \<open>networkSubgraph_deployment n = Some d\<close> False Some]
      have "k = i"
      proof (rule ccontr)
        assume "k \<noteq> i"
        then have "networkSubgraphGuard n ds ! k = ds ! k" unfolding g by simp
        with ne show False by simp
      qed
      moreover have "networkSubgraphGuard n ds ! k = (ds ! k)\<lparr>toAllocate := False\<rparr>"
        unfolding g \<open>k = i\<close> using k \<open>k = i\<close> by simp
      ultimately show ?thesis
        using \<open>networkSubgraph_deployment n = Some d\<close> False Some by simp
    qed
  qed
qed

text \<open>
  Claim C9. The network-subgraph guard keeps the length and the order of the
  decisions and never turns \<open>toAllocate\<close> from false to true. A position whose
  decision it changes is the first position whose deployment has the \<open>bytes32\<close> of
  the network's meta-subgraph deployment, that deployment is configured,
  \<open>allocateOnNetworkSubgraph\<close> is false, and the new decision is the old one with
  \<open>toAllocate\<close> set to false and every other field as it was. So at most one
  position changes, and every other decision is returned unchanged.
\<close>

theorem networkSubgraphGuard_frame:
  "length (networkSubgraphGuard n ds) = length ds
   \<and> (\<forall>i<length ds. toAllocate (networkSubgraphGuard n ds ! i) \<longrightarrow> toAllocate (ds ! i))
   \<and> (\<forall>i<length ds. networkSubgraphGuard n ds ! i \<noteq> ds ! i \<longrightarrow>
         (\<exists>d. networkSubgraph_deployment n = Some d
            \<and> \<not> allocateOnNetworkSubgraph n
            \<and> bytes32 (deployment (ds ! i)) = bytes32 d
            \<and> (\<forall>j<i. bytes32 (deployment (ds ! j)) \<noteq> bytes32 d)
            \<and> networkSubgraphGuard n ds ! i = (ds ! i)\<lparr>toAllocate := False\<rparr>))
   \<and> (\<forall>i<length ds. \<forall>j<length ds.
         networkSubgraphGuard n ds ! i \<noteq> ds ! i \<longrightarrow> networkSubgraphGuard n ds ! j \<noteq> ds ! j
         \<longrightarrow> i = j)"
proof (intro conjI allI impI)
  show "length (networkSubgraphGuard n ds) = length ds"
    by (rule networkSubgraphGuard_length)
next
  fix i assume i: "i < length ds" and t: "toAllocate (networkSubgraphGuard n ds ! i)"
  show "toAllocate (ds ! i)"
  proof (cases "networkSubgraphGuard n ds ! i = ds ! i")
    case True
    with t show ?thesis by simp
  next
    case False
    from networkSubgraphGuard_changed [OF i False]
    have "networkSubgraphGuard n ds ! i = (ds ! i)\<lparr>toAllocate := False\<rparr>" by blast
    with t show ?thesis by simp
  qed
next
  fix i assume i: "i < length ds" and ne: "networkSubgraphGuard n ds ! i \<noteq> ds ! i"
  from networkSubgraphGuard_changed [OF i ne] obtain d where d:
    "networkSubgraph_deployment n = Some d" "\<not> allocateOnNetworkSubgraph n"
    "findIndex (\<lambda>x. bytes32 (deployment x) = bytes32 d) ds = Some i"
    "networkSubgraphGuard n ds ! i = (ds ! i)\<lparr>toAllocate := False\<rparr>"
    by blast
  from d(3) have "bytes32 (deployment (ds ! i)) = bytes32 d"
    and "\<forall>j<i. bytes32 (deployment (ds ! j)) \<noteq> bytes32 d"
    by (simp_all add: findIndex_Some_iff)
  with d(1,2,4)
  show "\<exists>d. networkSubgraph_deployment n = Some d
            \<and> \<not> allocateOnNetworkSubgraph n
            \<and> bytes32 (deployment (ds ! i)) = bytes32 d
            \<and> (\<forall>j<i. bytes32 (deployment (ds ! j)) \<noteq> bytes32 d)
            \<and> networkSubgraphGuard n ds ! i = (ds ! i)\<lparr>toAllocate := False\<rparr>"
    by (intro exI [of _ d] conjI)
next
  fix i j assume i: "i < length ds" and j: "j < length ds"
    and ni: "networkSubgraphGuard n ds ! i \<noteq> ds ! i"
    and nj: "networkSubgraphGuard n ds ! j \<noteq> ds ! j"
  from networkSubgraphGuard_changed [OF i ni] obtain d where
    "networkSubgraph_deployment n = Some d"
    "findIndex (\<lambda>x. bytes32 (deployment x) = bytes32 d) ds = Some i"
    by blast
  moreover from networkSubgraphGuard_changed [OF j nj] obtain d' where
    "networkSubgraph_deployment n = Some d'"
    "findIndex (\<lambda>x. bytes32 (deployment x) = bytes32 d') ds = Some j"
    by blast
  ultimately show "i = j" by simp
qed

text \<open>On a network whose meta-subgraph is \<open>D3\<close>, of the decisions for \<open>D1\<close>,
  \<open>D3\<close> and \<open>D3\<close> again, all to allocate, the guard switches off the first one
  for \<open>D3\<close> only.\<close>

theorem networkSubgraphGuard_frame_witness:
  "networkSubgraphGuard net_auto
      [decision D1 True rule_always, decision D3 True rule_always, decision D3 True rule_always]
     = [decision D1 True rule_always, decision D3 False rule_always, decision D3 True rule_always]
   \<and> (1::nat) < 3
   \<and> networkSubgraph_deployment net_auto = Some D3
   \<and> bytes32 (deployment (decision D3 True rule_always)) = bytes32 D3"
proof -
  let ?ds = "[decision D1 True rule_always, decision D3 True rule_always,
              decision D3 True rule_always]"
  have g: "networkSubgraphGuard net_auto ?ds =
        [decision D1 True rule_always, decision D3 False rule_always,
         decision D3 True rule_always]"
    by (simp add: networkSubgraphGuard_def net_auto_def decision_def D1_def D3_def)
  note inst = networkSubgraphGuard_frame [of net_auto ?ds, THEN conjunct2, THEN conjunct2,
      THEN conjunct1, rule_format, of 1]
  have "networkSubgraphGuard net_auto ?ds ! 1 \<noteq> ?ds ! 1"
    unfolding g by (simp add: decision_def)
  with inst have "\<exists>d. networkSubgraph_deployment net_auto = Some d \<and>
      bytes32 (deployment (?ds ! 1)) = bytes32 d"
    by fastforce
  then have "networkSubgraph_deployment net_auto = Some D3 \<and>
      bytes32 (deployment (decision D3 True rule_always)) = bytes32 D3"
    by (simp add: net_auto_def)
  with g show ?thesis by simp
qed

lemma identifyExpiringAllocations_filter:
  "identifyExpiringAllocations n as d e m =
     filter (\<lambda>a. e \<ge> createdAtEpoch a +
                    (if truthy_number (rule_allocationLifetime d)
                     then the (rule_allocationLifetime d) else max 1 (m - 1))
                \<and> (getAllocation n (id_al a) = Some 0 \<or> getAllocation n (id_al a) = None))
       as"
proof -
  have "(case x of Some c \<Rightarrow> c = 0 | None \<Rightarrow> True) \<longleftrightarrow> (x = Some 0 \<or> x = None)"
    for x :: "int option"
    by (cases x) auto
  then show ?thesis
    by (simp add: identifyExpiringAllocations_def Let_def conj_commute)
qed

text \<open>
  Claim C7, as stated, fails on the code. The rule's \<open>allocationLifetime\<close> is set
  to 0, the allocation was created in epoch 100 and the epoch is 100, so the
  allocation has reached the rule's lifetime and the contract reports it open; the
  claim returns it. The code tests the lifetime for truthiness, takes 0 for unset,
  uses \<open>max 1 (28 - 1) = 27\<close> and returns nothing.
\<close>

theorem identifyExpiringAllocations_counterexample:
  "identifyExpiringAllocations net_auto [alloc_D1] (decision D1 True rule_lifetime0) 100 28 = []
   \<and> identifyExpiringAllocations_spec net_auto [alloc_D1] (decision D1 True rule_lifetime0) 100 28
       = [alloc_D1]"
  by (simp add: identifyExpiringAllocations_filter identifyExpiringAllocations_spec_def
      rule_allocationLifetime_def decision_def rule_lifetime0_def rule_always_def
      alloc_D1_def net_auto_def)

text \<open>
  Claim C7, amended. \<^verbatim>\<open>identifyExpiringAllocations\<close> returns, in their order,
  exactly the allocations \<open>a\<close> of the list it is given with
  \<open>epoch \<ge> createdAtEpoch a + desiredLifetime\<close> that are still open on chain, where
  an allocation is still open when the contract reports \<open>closedAtEpoch = 0\<close> or the
  contract read fails. \<open>desiredLifetime\<close> is the rule's \<open>allocationLifetime\<close> when
  it is set and not zero, and \<open>max 1 (maxAllocationEpochs - 1)\<close> when the decision
  has no rule, the rule has no lifetime, or the lifetime is zero.
\<close>

theorem identifyExpiringAllocations_correct:
  "(\<forall>r l. rule (ruleMatch d) = Some r \<and> allocationLifetime r = Some l \<and> l \<noteq> 0 \<longrightarrow>
      identifyExpiringAllocations n as d e m =
        filter (\<lambda>a. e \<ge> createdAtEpoch a + l \<and>
                     (getAllocation n (id_al a) = Some 0 \<or> getAllocation n (id_al a) = None))
          as)
   \<and> ((rule (ruleMatch d) = None
        \<or> (\<exists>r. rule (ruleMatch d) = Some r \<and>
               (allocationLifetime r = None \<or> allocationLifetime r = Some 0))) \<longrightarrow>
      identifyExpiringAllocations n as d e m =
        filter (\<lambda>a. e \<ge> createdAtEpoch a + max 1 (m - 1) \<and>
                     (getAllocation n (id_al a) = Some 0 \<or> getAllocation n (id_al a) = None))
          as)"
  by (auto simp: identifyExpiringAllocations_filter rule_allocationLifetime_def)

text \<open>The fourth scenario of the specification: no lifetime in the rule,
  \<open>maxAllocationEpochs = 28\<close>, an allocation created in epoch 100 and open on chain;
  in epoch 128 it is returned, in epoch 126 it is not. With a lifetime of 5 in the
  rule it is returned in epoch 105.\<close>

theorem identifyExpiringAllocations_correct_witness:
  "identifyExpiringAllocations net_auto [alloc_D1] (decision D1 True rule_always) 128 28
     = [alloc_D1]
   \<and> identifyExpiringAllocations net_auto [alloc_D1] (decision D1 True rule_always) 126 28 = []
   \<and> identifyExpiringAllocations net_auto [alloc_D1] (decision D1 True rule_lifetime5) 105 28
     = [alloc_D1]"
proof -
  note unset = identifyExpiringAllocations_correct
    [of "decision D1 True rule_always" net_auto "[alloc_D1]", THEN conjunct2, rule_format]
  note set5 = identifyExpiringAllocations_correct
    [of "decision D1 True rule_lifetime5" net_auto "[alloc_D1]", THEN conjunct1, rule_format,
     of rule_lifetime5 5]
  have u: "rule (ruleMatch (decision D1 True rule_always)) = None
        \<or> (\<exists>r. rule (ruleMatch (decision D1 True rule_always)) = Some r \<and>
               (allocationLifetime r = None \<or> allocationLifetime r = Some 0))"
    by (simp add: decision_def rule_always_def)
  have s: "rule (ruleMatch (decision D1 True rule_lifetime5)) = Some rule_lifetime5 \<and>
        allocationLifetime rule_lifetime5 = Some 5 \<and> (5::int) \<noteq> 0"
    by (simp add: decision_def rule_lifetime5_def)
  show ?thesis
    unfolding unset [OF u] set5 [OF s]
    by (simp add: alloc_D1_def net_auto_def)
qed

section \<open>Claims about the target deployments and the mode filter\<close>

text \<open>
  Claim C3 does not hold of the code. One network has no decision to allocate and
  an offchain rule for \<open>D1\<close>, and the offchain list from startup holds \<open>D1\<close>. The
  rule's deployment is a new object, which the \<^verbatim>\<open>Set\<close> does not identify with
  the object of the startup list, and the emitted list holds the \<open>bytes32\<close> of
  \<open>D1\<close> twice.
\<close>

theorem targetDeployments_not_deduplicated:
  "targetDeployments parse_known 10 [(''eip155:1'', [])]
      [(''eip155:1'', [rule_always, rule_offchain_D1])] [D1] = Inr [D1\<lparr>ref := 10\<rparr>, D1]
   \<and> \<not> distinct (map bytes32 [D1\<lparr>ref := 10\<rparr>, D1])"
  by (simp add: targetDeployments_def new_Set_def Set_add_def new_SubgraphDeploymentID_def
      rule_offchain_D1_def rule_on_def rule_always_def parse_known_def D1_def)

text \<open>
  Claim C2 does not hold of the code. The only network is in manual mode and has
  one decision to allocate to \<open>D1\<close>, on which it has no active allocation. The
  promise of line 1066 is not awaited, \<^verbatim>\<open>Object.entries\<close> of it is empty, no
  network is dropped, and \<^verbatim>\<open>createAllocation\<close> is issued for the network.
\<close>

theorem reconcileActions_manual_network_allocates:
  "allocationManagementMode net_manual = MANUAL
   \<and> reconcileActions [(''eip155:1'', net_manual)]
        [(''eip155:1'', [decision D1 True rule_always])]
        [(''eip155:1'', [])] [(''eip155:1'', 100)] [(''eip155:1'', 28)] =
      Inr [CreateAllocation ''eip155:1'' (decision D1 True rule_always) None]"
  by (simp add: reconcileActions_def mapNetworkMapped_def await_def
      Object_entries_of_Promise_def zip4_def reconcileDeploymentAllocationAction_def
      networkSubgraphGuard_def net_manual_def net_auto_def decision_def D1_def D3_def)

subsection \<open>What the emitted list holds, compared by \<open>bytes32\<close>\<close>

lemma Set_add_old: "ref d \<in> ref ` set s \<Longrightarrow> Set_add s d = s"
  by (simp add: Set_add_def)

lemma Set_add_new: "ref d \<notin> ref ` set s \<Longrightarrow> Set_add s d = s @ [d]"
  by (simp add: Set_add_def)

lemma Set_add_subset: "set (Set_add s d) \<subseteq> insert d (set s)"
  by (cases "ref d \<in> ref ` set s") (simp_all add: Set_add_old Set_add_new subset_insertI)

lemma bytes32_Set_add:
  assumes "\<forall>x\<in>set s. ref x = ref d \<longrightarrow> bytes32 x = bytes32 d"
  shows "bytes32 ` set (Set_add s d) = insert (bytes32 d) (bytes32 ` set s)"
proof (cases "ref d \<in> ref ` set s")
  case True
  then obtain x where x: "x \<in> set s" "ref d = ref x" by (rule imageE)
  with assms have "bytes32 x = bytes32 d" by simp
  with x(1) have "bytes32 d \<in> bytes32 ` set s" by (metis image_eqI)
  then have "insert (bytes32 d) (bytes32 ` set s) = bytes32 ` set s" by (rule insert_absorb)
  with True show ?thesis by (simp add: Set_add_old)
next
  case False
  then show ?thesis by (simp add: Set_add_new)
qed


lemma consistentD: "consistent S \<Longrightarrow> x \<in> S \<Longrightarrow> y \<in> S \<Longrightarrow> ref x = ref y \<Longrightarrow> bytes32 x = bytes32 y"
  unfolding consistent_def by (drule (1) bspec, drule (1) bspec, erule mp)

lemma consistent_mono: "consistent T \<Longrightarrow> S \<subseteq> T \<Longrightarrow> consistent S"
  unfolding consistent_def by (meson subsetD)

lemma bytes32_foldl_Set_add:
  assumes "consistent (set s \<union> set ds)"
  shows "bytes32 ` set (foldl Set_add s ds) = bytes32 ` set s \<union> bytes32 ` set ds
     \<and> set (foldl Set_add s ds) \<subseteq> set s \<union> set ds"
  using assms
proof (induction ds arbitrary: s)
  case Nil
  then show ?case by simp
next
  case (Cons d ds)
  have sub: "set (Set_add s d) \<subseteq> insert d (set s)" by (rule Set_add_subset)
  have "\<forall>x\<in>set s. ref x = ref d \<longrightarrow> bytes32 x = bytes32 d"
  proof (intro ballI impI)
    fix x assume "x \<in> set s" "ref x = ref d"
    then show "bytes32 x = bytes32 d"
      using consistentD [OF Cons.prems, of x d] by simp
  qed
  then have b: "bytes32 ` set (Set_add s d) = insert (bytes32 d) (bytes32 ` set s)"
    by (rule bytes32_Set_add)
  have "set (Set_add s d) \<union> set ds \<subseteq> insert d (set s) \<union> set ds"
    using sub by (rule Un_mono) (rule subset_refl)
  then have "set (Set_add s d) \<union> set ds \<subseteq> set s \<union> set (d # ds)"
    by simp
  with Cons.prems have "consistent (set (Set_add s d) \<union> set ds)"
    by (rule consistent_mono)
  from Cons.IH [OF this]
  have 1: "bytes32 ` set (foldl Set_add (Set_add s d) ds) = bytes32 ` set (Set_add s d) \<union> bytes32 ` set ds"
    and 2: "set (foldl Set_add (Set_add s d) ds) \<subseteq> set (Set_add s d) \<union> set ds"
    by simp_all
  have "bytes32 ` set (foldl Set_add s (d # ds)) = bytes32 ` set s \<union> bytes32 ` set (d # ds)"
    by (simp add: 1 b)
  moreover have "set (foldl Set_add s (d # ds)) \<subseteq> set s \<union> set (d # ds)"
    using 2 sub by simp blast
  ultimately show ?case by (rule conjI)
qed


lemma olderD: "older heap S \<Longrightarrow> x \<in> S \<Longrightarrow> ref x < heap"
  unfolding older_def by (erule bspec)

lemma older_mono: "older heap T \<Longrightarrow> S \<subseteq> T \<Longrightarrow> older heap S"
  unfolding older_def by (meson subsetD)

lemma Set_add_fresh:
  assumes "older heap (set s)"
  shows "Set_add s (d\<lparr>ref := heap\<rparr>) = s @ [d\<lparr>ref := heap\<rparr>]"
proof (rule Set_add_new, rule notI)
  assume "ref (d\<lparr>ref := heap\<rparr>) \<in> ref ` set s"
  then obtain x where x: "x \<in> set s" "ref (d\<lparr>ref := heap\<rparr>) = ref x" by (rule imageE)
  from olderD [OF assms x(1)] x(2) show False by simp
qed

lemma older_fresh:
  assumes "older heap (set s)"
  shows "older (Suc heap) (set (s @ [d\<lparr>ref := heap\<rparr>]))"
  unfolding older_def
proof
  fix x :: SubgraphDeploymentID
  assume "x \<in> set (s @ [d\<lparr>ref := heap\<rparr>])"
  then have "x = d\<lparr>ref := heap\<rparr> \<or> x \<in> set s" by simp
  then show "ref x < Suc heap"
  proof
    assume "x = d\<lparr>ref := heap\<rparr>"
    then show ?thesis by simp
  next
    assume "x \<in> set s"
    from olderD [OF assms this] show ?thesis by simp
  qed
qed

lemma consistent_fresh:
  assumes "older heap (set s)" and "consistent (set s)"
  shows "consistent (set (s @ [d\<lparr>ref := heap\<rparr>]))"
  unfolding consistent_def
proof (intro ballI impI)
  fix x y :: SubgraphDeploymentID
  assume "x \<in> set (s @ [d\<lparr>ref := heap\<rparr>])" and "y \<in> set (s @ [d\<lparr>ref := heap\<rparr>])"
    and e: "ref x = ref y"
  then have x: "x = d\<lparr>ref := heap\<rparr> \<or> x \<in> set s" and y: "y = d\<lparr>ref := heap\<rparr> \<or> y \<in> set s"
    by simp_all
  from x show "bytes32 x = bytes32 y"
  proof
    assume xn: "x = d\<lparr>ref := heap\<rparr>"
    from y show ?thesis
    proof
      assume "y = d\<lparr>ref := heap\<rparr>"
      with xn show ?thesis by simp
    next
      assume "y \<in> set s"
      from olderD [OF assms(1) this] e xn show ?thesis by simp
    qed
  next
    assume xs: "x \<in> set s"
    from y show ?thesis
    proof
      assume "y = d\<lparr>ref := heap\<rparr>"
      with olderD [OF assms(1) xs] e show ?thesis by simp
    next
      assume "y \<in> set s"
      with assms(2) xs e show ?thesis by (metis consistentD)
    qed
  qed
qed


lemma addOffchainRules_Inr:
  assumes "addOffchainRules P heap s rs = Inr out"
    and "older heap (set s)"
    and "consistent (set s)"
  shows "bytes32 ` set out =
           bytes32 ` set s \<union> bytes32 ` set (List.map_filter (\<lambda>r. P (identifier r)) rs)
     \<and> (\<forall>x\<in>set out. x \<in> set s \<or> heap \<le> ref x)
     \<and> consistent (set out)"
  using assms
proof (induction rs arbitrary: heap s)
  case Nil
  then show ?case by (simp add: List.map_filter_simps)
next
  case (Cons r rs)
  show ?case
  proof (cases "P (identifier r)")
    case None
    with Cons.prems(1) show ?thesis by (simp add: new_SubgraphDeploymentID_def)
  next
    case (Some d)
    let ?n = "d\<lparr>ref := heap\<rparr>"
    have s': "Set_add s ?n = s @ [?n]" using Cons.prems(2) by (rule Set_add_fresh)
    from Cons.prems(1) Some
    have rest: "addOffchainRules P (Suc heap) (s @ [?n]) rs = Inr out"
      by (simp add: new_SubgraphDeploymentID_def s')
    have lt: "older (Suc heap) (set (s @ [?n]))" using Cons.prems(2) by (rule older_fresh)
    have cons: "consistent (set (s @ [?n]))" using Cons.prems(2,3) by (rule consistent_fresh)
    from Cons.IH [OF rest lt cons]
    have 1: "bytes32 ` set out =
         bytes32 ` set (s @ [?n]) \<union> bytes32 ` set (List.map_filter (\<lambda>r. P (identifier r)) rs)"
      and 2: "\<forall>x\<in>set out. x \<in> set (s @ [?n]) \<or> Suc heap \<le> ref x"
      and 3: "consistent (set out)"
      by simp_all
    have a: "bytes32 ` set out =
         bytes32 ` set s \<union> bytes32 ` set (List.map_filter (\<lambda>r. P (identifier r)) (r # rs))"
      unfolding 1 by (simp add: List.map_filter_simps Some)
    have b: "\<forall>x\<in>set out. x \<in> set s \<or> heap \<le> ref x"
    proof
      fix x :: SubgraphDeploymentID
      assume "x \<in> set out"
      with 2 have "x \<in> set (s @ [?n]) \<or> Suc heap \<le> ref x" by (rule bspec)
      then have "x = ?n \<or> x \<in> set s \<or> Suc heap \<le> ref x" by simp
      then show "x \<in> set s \<or> heap \<le> ref x"
      proof (elim disjE)
        assume "x \<in> set s" then show ?thesis by (rule disjI1)
      next
        assume "x = ?n" then show ?thesis by simp
      next
        assume "Suc heap \<le> ref x" then show ?thesis by simp
      qed
    qed
    from a b 3 show ?thesis by (intro conjI)
  qed
qed


lemma consistent_Un:
  assumes A: "consistent A" and B: "consistent (B \<union> C)" and old: "older heap (B \<union> C)"
    and org: "\<forall>x\<in>A. x \<in> B \<or> heap \<le> ref x"
  shows "consistent (A \<union> C)"
  unfolding consistent_def
proof (intro ballI impI)
  fix x y :: SubgraphDeploymentID
  assume x: "x \<in> A \<union> C" and y: "y \<in> A \<union> C" and e: "ref x = ref y"
  have split: "z \<in> B \<union> C \<or> (z \<in> A \<and> heap \<le> ref z)" if "z \<in> A \<union> C" for z
  proof -
    from that have "z \<in> A \<or> z \<in> C" by simp
    then show ?thesis
    proof
      assume z: "z \<in> A"
      with org have "z \<in> B \<or> heap \<le> ref z" by (rule bspec)
      with z show ?thesis by simp blast
    next
      assume "z \<in> C" then show ?thesis by simp
    qed
  qed
  from split [OF x] show "bytes32 x = bytes32 y"
  proof (elim disjE conjE)
    assume xo: "x \<in> B \<union> C"
    from split [OF y] show ?thesis
    proof (elim disjE conjE)
      assume "y \<in> B \<union> C"
      with B xo show ?thesis using e by (rule consistentD)
    next
      assume "heap \<le> ref y"
      with olderD [OF old xo] e show ?thesis by simp
    qed
  next
    assume xa: "x \<in> A" and xn: "heap \<le> ref x"
    from split [OF y] show ?thesis
    proof (elim disjE conjE)
      assume "y \<in> B \<union> C"
      from olderD [OF old this] xn e show ?thesis by simp
    next
      assume "y \<in> A"
      with A xa show ?thesis using e by (rule consistentD)
    qed
  qed
qed

text \<open>
  Compared by \<open>bytes32\<close>, the emitted list is the union of the deployments of the
  decisions to allocate, the deployments that the offchain rules identify and the
  offchain list from startup. This holds for objects made before the run that are
  consistent.
\<close>

lemma targetDeployments_bytes32:
  assumes run: "targetDeployments P heap decisions rules offchainSubgraphs = Inr out"
    and old: "older heap (set (map deployment (filter toAllocate (concat (map snd decisions))))
                 \<union> set offchainSubgraphs)"
    and same: "consistent (set (map deployment (filter toAllocate (concat (map snd decisions))))
                 \<union> set offchainSubgraphs)"
  shows "bytes32 ` set out =
       bytes32 ` set (map deployment (filter toAllocate (concat (map snd decisions))))
     \<union> bytes32 ` set (List.map_filter (\<lambda>r. P (identifier r))
          (filter (\<lambda>r. decisionBasis r = OFFCHAIN) (concat (map snd rules))))
     \<union> bytes32 ` set offchainSubgraphs"
proof -
  let ?a = "map deployment (filter toAllocate (concat (map snd decisions)))"
  let ?rs = "filter (\<lambda>r. decisionBasis r = OFFCHAIN) (concat (map snd rules))"
  have sa: "consistent (set [] \<union> set ?a)"
    using same by (rule consistent_mono) simp
  have a1: "bytes32 ` set (new_Set ?a) = bytes32 ` set ?a"
    and a2: "set (new_Set ?a) \<subseteq> set ?a"
    using bytes32_foldl_Set_add [OF sa] unfolding new_Set_def by simp_all
  have a3: "set (new_Set ?a) \<subseteq> set ?a \<union> set offchainSubgraphs"
    using a2 by (rule subset_trans) (rule Un_upper1)
  have o: "older heap (set (new_Set ?a))" using old a3 by (rule older_mono)
  have c: "consistent (set (new_Set ?a))" using same a3 by (rule consistent_mono)
  show ?thesis
  proof (cases "addOffchainRules P heap (new_Set ?a) ?rs")
    case (Inl e)
    with run show ?thesis by (simp add: targetDeployments_def)
  next
    case (Inr withRules)
    with run have out: "out = foldl Set_add withRules offchainSubgraphs"
      by (simp add: targetDeployments_def)
    from addOffchainRules_Inr [OF Inr o c]
    have r: "bytes32 ` set withRules =
         bytes32 ` set (new_Set ?a) \<union> bytes32 ` set (List.map_filter (\<lambda>r. P (identifier r)) ?rs)"
      and org: "\<forall>x\<in>set withRules. x \<in> set (new_Set ?a) \<or> heap \<le> ref x"
      and cons: "consistent (set withRules)"
      by simp_all
    have org': "\<forall>x\<in>set withRules. x \<in> set ?a \<or> heap \<le> ref x"
    proof
      fix x :: SubgraphDeploymentID
      assume "x \<in> set withRules"
      with org have "x \<in> set (new_Set ?a) \<or> heap \<le> ref x" by (rule bspec)
      then show "x \<in> set ?a \<or> heap \<le> ref x"
      proof
        assume "x \<in> set (new_Set ?a)"
        with a2 have "x \<in> set ?a" by (rule subsetD)
        then show ?thesis by (rule disjI1)
      next
        assume "heap \<le> ref x" then show ?thesis by (rule disjI2)
      qed
    qed
    have "consistent (set withRules \<union> set offchainSubgraphs)"
      using cons same old org' by (rule consistent_Un)
    from bytes32_foldl_Set_add [OF this]
    have "bytes32 ` set out = bytes32 ` set withRules \<union> bytes32 ` set offchainSubgraphs"
      unfolding out by (rule conjunct1)
    then show ?thesis unfolding r a1 .
  qed
qed

section \<open>Claims about the dispute identifier\<close>

lemma collect_Inr:
  "collect rs = Inr xs \<Longrightarrow> length xs = length rs \<and> (\<forall>i<length rs. rs ! i = Inr (xs ! i))"
proof (induction rs arbitrary: xs rule: collect.induct)
  case 1
  then show ?case by simp
next
  case (2 e rs)
  then show ?case by simp
next
  case (3 x rs)
  from "3.prems" obtain ys where ys: "collect rs = Inr ys" "xs = x # ys"
    by (auto split: sum.splits)
  from "3.IH" [OF ys(1)] ys(2) show ?case
    by (auto simp: nth_Cons split: nat.splits)
qed

lemma collect_map_Inr:
  "collect (map f as) = Inr xs \<Longrightarrow>
     length xs = length as \<and> (\<forall>i<length as. f (as ! i) = Inr (xs ! i))"
  using collect_Inr [of "map f as" xs] by simp

lemma not_truthy_string: "\<not> truthy_string x \<longleftrightarrow> x = None \<or> x = Some []"
  by (cases x) auto

lemma disputeOf_status:
  assumes "disputeOf pools net a = Inr d"
  shows "\<exists>pool. find (\<lambda>p. ref (subgraphDeployment p) = ref (subgraphDeployment_id a) \<and>
                         closedAtEpoch_pool p = closedAtEpoch a) pools = Some pool
     \<and> allocationID d = id_al a
     \<and> (status d = ''valid'' \<longleftrightarrow>
          referencePOI pool = poi a \<or> referencePreviousPOI pool = poi a)
     \<and> (status d = ''reference_unavailable'' \<longleftrightarrow>
          \<not> (referencePOI pool = poi a \<or> referencePreviousPOI pool = poi a) \<and>
          (referencePOI pool = None \<or> referencePOI pool = Some [] \<or>
           referencePreviousPOI pool = None \<or> referencePreviousPOI pool = Some []))
     \<and> (status d = ''potential'' \<longleftrightarrow>
          \<not> (referencePOI pool = poi a \<or> referencePreviousPOI pool = poi a) \<and>
          \<not> (referencePOI pool = None \<or> referencePOI pool = Some [] \<or>
             referencePreviousPOI pool = None \<or> referencePreviousPOI pool = Some []))"
proof -
  from assms obtain pool where
    pool: "find (\<lambda>p. ref (subgraphDeployment p) = ref (subgraphDeployment_id a) \<and>
                     closedAtEpoch_pool p = closedAtEpoch a) pools = Some pool"
    by (auto simp: disputeOf_def split: option.splits)
  let ?v = "referencePOI pool = poi a \<or> referencePreviousPOI pool = poi a"
  let ?m = "\<not> truthy_string (referencePOI pool) \<or> \<not> truthy_string (referencePreviousPOI pool)"
  from assms pool have st: "status d =
      (if ?v then ''valid'' else if ?m then ''reference_unavailable'' else ''potential'')"
    and i: "allocationID d = id_al a"
    by (auto simp: disputeOf_def Let_def)
  have m: "?m \<longleftrightarrow> (referencePOI pool = None \<or> referencePOI pool = Some [] \<or>
           referencePreviousPOI pool = None \<or> referencePreviousPOI pool = Some [])"
    by (auto simp: not_truthy_string)
  from st have "(status d = ''valid'' \<longleftrightarrow> ?v)"
    and "(status d = ''reference_unavailable'' \<longleftrightarrow> \<not> ?v \<and> ?m)"
    and "(status d = ''potential'' \<longleftrightarrow> \<not> ?v \<and> \<not> ?m)"
    by (simp_all split: if_splits)
  with pool i show ?thesis unfolding m by blast
qed


lemma identifyPotentialDisputes_Inr:
  assumes "identifyPotentialDisputes reads table allocs e net = Inr (table', calls)"
  shows "(newDisputableAllocations table allocs e net = [] \<and> table' = table \<and> calls = [])
     \<or> (\<exists>pools disputes.
           newDisputableAllocations table allocs e net \<noteq> [] \<and>
           uniqueRewardsPools reads (newDisputableAllocations table allocs e net) = Inr pools \<and>
           collect (map (disputeOf pools net) (newDisputableAllocations table allocs e net))
             = Inr disputes \<and>
           table' = storePoiDisputes table disputes \<and> calls = [disputes])"
  using assms
  by (auto simp: identifyPotentialDisputes_def Let_def split: if_splits sum.splits)

text \<open>
  Claim C4. Every dispute that a run of \<^verbatim>\<open>identifyPotentialDisputes\<close> hands to
  \<^verbatim>\<open>storePoiDisputes\<close> belongs to the new disputable allocation at the same
  position, a rewards pool was found for that allocation, and with the reference
  POIs of that pool: the status is \<open>''valid''\<close> if and only if the allocation's
  \<open>poi\<close> equals \<open>referencePOI\<close> or \<open>referencePreviousPOI\<close>; it is
  \<open>''reference_unavailable''\<close> if and only if it is not valid and at least one of
  the two reference POIs is missing (undefined or empty); and it is
  \<open>''potential''\<close> if and only if it is not valid and both are present.
\<close>

theorem identifyPotentialDisputes_classification:
  assumes "identifyPotentialDisputes reads table allocs e net = Inr (table', calls)"
    and "disputes \<in> set calls" and "i < length disputes"
  shows "\<exists>pools pool a.
      uniqueRewardsPools reads (newDisputableAllocations table allocs e net) = Inr pools
      \<and> length disputes = length (newDisputableAllocations table allocs e net)
      \<and> a = newDisputableAllocations table allocs e net ! i
      \<and> find (\<lambda>p. ref (subgraphDeployment p) = ref (subgraphDeployment_id a) \<and>
                    closedAtEpoch_pool p = closedAtEpoch a) pools = Some pool
      \<and> allocationID (disputes ! i) = id_al a
      \<and> (status (disputes ! i) = ''valid'' \<longleftrightarrow>
           referencePOI pool = poi a \<or> referencePreviousPOI pool = poi a)
      \<and> (status (disputes ! i) = ''reference_unavailable'' \<longleftrightarrow>
           \<not> (referencePOI pool = poi a \<or> referencePreviousPOI pool = poi a) \<and>
           (referencePOI pool = None \<or> referencePOI pool = Some [] \<or>
            referencePreviousPOI pool = None \<or> referencePreviousPOI pool = Some []))
      \<and> (status (disputes ! i) = ''potential'' \<longleftrightarrow>
           \<not> (referencePOI pool = poi a \<or> referencePreviousPOI pool = poi a) \<and>
           \<not> (referencePOI pool = None \<or> referencePOI pool = Some [] \<or>
              referencePreviousPOI pool = None \<or> referencePreviousPOI pool = Some []))"
proof -
  let ?new = "newDisputableAllocations table allocs e net"
  from identifyPotentialDisputes_Inr [OF assms(1)] assms(2)
  obtain pools where pools: "uniqueRewardsPools reads ?new = Inr pools"
    and c: "collect (map (disputeOf pools net) ?new) = Inr disputes"
    by auto
  from collect_map_Inr [OF c] assms(3)
  have len: "length disputes = length ?new"
    and d: "disputeOf pools net (?new ! i) = Inr (disputes ! i)"
    by simp_all
  from disputeOf_status [OF d] pools len show ?thesis by blast
qed

lemmas dispute_run_defs =
  identifyPotentialDisputes_def newDisputableAllocations_def alreadyProcessed_def
  fetchPOIDisputes_def uniqueRewardsPools_def allocationRewardsPool_def fillRewardsPool_def
  disputeOf_def storePoiDisputes_def storePoiDispute_def dispute_key_def Let_def

lemma run_available:
  "identifyPotentialDisputes reads_available [] [alloc_D2] 105 ''eip155:1'' =
     Inr ([dispute_D2_valid], [[dispute_D2_valid]])"
  by (simp add: dispute_run_defs reads_available_def alloc_D2_def D2_def dispute_D2_valid_def)

lemma run_unavailable:
  "identifyPotentialDisputes reads_unavailable [] [alloc_D2] 105 ''eip155:1'' =
     Inr ([dispute_D2_unavailable], [[dispute_D2_unavailable]])"
  by (simp add: dispute_run_defs reads_unavailable_def reads_available_def alloc_D2_def D2_def
      dispute_D2_unavailable_def dispute_D2_valid_def)

lemma rerun_unavailable:
  "identifyPotentialDisputes reads_unavailable [dispute_D2_unavailable] [alloc_D2] 105
     ''eip155:1'' =
     Inr ([dispute_D2_unavailable], [[dispute_D2_unavailable]])"
  by (simp add: dispute_run_defs reads_unavailable_def reads_available_def alloc_D2_def D2_def
      dispute_D2_unavailable_def dispute_D2_valid_def)

theorem identifyPotentialDisputes_classification_witness:
  "identifyPotentialDisputes reads_available [] [alloc_D2] 105 ''eip155:1'' =
     Inr ([dispute_D2_valid], [[dispute_D2_valid]])
   \<and> status dispute_D2_valid = ''valid''
   \<and> (\<exists>pool::RewardsPool. referencePOI pool = poi alloc_D2 \<or> referencePreviousPOI pool = poi alloc_D2)"
proof -
  have new: "newDisputableAllocations [] [alloc_D2] 105 ''eip155:1'' = [alloc_D2]"
    by (simp add: newDisputableAllocations_def alreadyProcessed_def fetchPOIDisputes_def)
  have st: "status dispute_D2_valid = ''valid''"
    by (simp add: dispute_D2_valid_def)
  have "[dispute_D2_valid] \<in> set [[dispute_D2_valid]]" and "0 < length [dispute_D2_valid]"
    by simp_all
  from identifyPotentialDisputes_classification [OF run_available this]
  have "\<exists>pool::RewardsPool. referencePOI pool = poi alloc_D2 \<or> referencePreviousPOI pool = poi alloc_D2"
  proof (elim exE conjE)
    fix pools :: "RewardsPool list" and pool :: RewardsPool and a :: Allocation
    assume a: "a = newDisputableAllocations [] [alloc_D2] 105 ''eip155:1'' ! 0"
      and v: "(status ([dispute_D2_valid] ! 0) = ''valid'') =
         (referencePOI pool = poi a \<or> referencePreviousPOI pool = poi a)"
    from a new have "a = alloc_D2" by simp
    with v st
    have "referencePOI pool = poi alloc_D2 \<or> referencePreviousPOI pool = poi alloc_D2"
      by simp
    then show ?thesis by (rule exI)
  qed
  with run_available st show ?thesis by (intro conjI)
qed

text \<open>The fifth scenario of the specification: the POI of \<open>alloc_D2\<close> is the
  reference POI of the previous epoch's start block, and the dispute is stored as
  valid.\<close>

section \<open>Idempotence of the dispute identifier\<close>

lemma set_storePoiDispute: "set table \<subseteq> set (storePoiDispute table d)"
  by (auto simp: storePoiDispute_def)

lemma key_storePoiDispute:
  "dispute_key ` set (storePoiDispute table d) = insert (dispute_key d) (dispute_key ` set table)"
  by (auto simp: storePoiDispute_def)

lemma set_storePoiDisputes: "set table \<subseteq> set (storePoiDisputes table ds)"
  unfolding storePoiDisputes_def
proof (induction ds arbitrary: table)
  case Nil
  then show ?case by simp
next
  case (Cons d ds)
  from set_storePoiDispute [of table d] Cons.IH [of "storePoiDispute table d"]
  show ?case by auto
qed

lemma key_storePoiDisputes:
  "dispute_key ` set (storePoiDisputes table ds) =
     dispute_key ` set table \<union> dispute_key ` set ds"
  unfolding storePoiDisputes_def
  by (induction ds arbitrary: table) (auto simp: key_storePoiDispute)

lemma disputeOf_key:
  "disputeOf pools net a = Inr d \<Longrightarrow> dispute_key d = (id_al a, net)"
  by (auto simp: disputeOf_def dispute_key_def Let_def split: option.splits)

lemma set_alreadyProcessed:
  "set (alreadyProcessed table e net) =
     {d \<in> set table. (status d = ''potential'' \<or> status d = ''valid'') \<and> closedEpoch d \<ge> e \<and>
                     protocolNetwork_dispute d = net}"
  by (auto simp: alreadyProcessed_def fetchPOIDisputes_def)

lemma newDisputableAllocations_iff:
  "a \<in> set (newDisputableAllocations table allocs e net) \<longleftrightarrow>
     a \<in> set allocs \<and> id_al a \<notin> allocationID ` set (alreadyProcessed table e net)"
  by (auto simp: newDisputableAllocations_def find_None_iff image_iff)

text \<open>After a run that returns, every disputable allocation has a row in the
  table under its key.\<close>

lemma identifyPotentialDisputes_covers:
  assumes run: "identifyPotentialDisputes reads table allocs e net = Inr (table', calls)"
    and a: "a \<in> set allocs"
  shows "(id_al a, net) \<in> dispute_key ` set table'"
proof (cases "a \<in> set (newDisputableAllocations table allocs e net)")
  case False
  with a obtain d where d: "d \<in> set (alreadyProcessed table e net)" "allocationID d = id_al a"
    by (auto simp: newDisputableAllocations_iff)
  then have "d \<in> set table" "protocolNetwork_dispute d = net"
    by (simp_all add: set_alreadyProcessed)
  moreover have "set table \<subseteq> set table'"
    using identifyPotentialDisputes_Inr [OF run] set_storePoiDisputes by auto
  ultimately have "d \<in> set table'" "dispute_key d = (id_al a, net)"
    using d(2) by (auto simp: dispute_key_def)
  then show ?thesis by (metis image_eqI)
next
  case True
  let ?new = "newDisputableAllocations table allocs e net"
  from True have "?new \<noteq> []" by auto
  with identifyPotentialDisputes_Inr [OF run] obtain pools disputes where
    c: "collect (map (disputeOf pools net) ?new) = Inr disputes"
    and t: "table' = storePoiDisputes table disputes"
    by auto
  from True obtain i where i: "i < length ?new" "?new ! i = a"
    by (auto simp: in_set_conv_nth)
  with collect_map_Inr [OF c] have "length disputes = length ?new"
    and "disputeOf pools net a = Inr (disputes ! i)"
    by auto
  with i(1) have "disputes ! i \<in> set disputes" "dispute_key (disputes ! i) = (id_al a, net)"
    by (simp_all add: disputeOf_key)
  then have "(id_al a, net) \<in> dispute_key ` set disputes" by (metis image_eqI)
  then show ?thesis unfolding t key_storePoiDisputes by simp
qed

text \<open>
  Claim C5, as stated, fails on the code. The graph node has no reference POI, so
  the first run stores the dispute of \<open>alloc_D2\<close> with status
  \<open>''reference_unavailable''\<close>. The second run, on the table the first run left
  and the same allocations and epoch, loads only the disputes with status
  \<open>''potential''\<close> or \<open>''valid''\<close>, finds \<open>alloc_D2\<close> new again and calls
  \<^verbatim>\<open>storePoiDisputes\<close> a second time.
\<close>

theorem identifyPotentialDisputes_idempotence_counterexample:
  "identifyPotentialDisputes reads_unavailable [] [alloc_D2] 105 ''eip155:1'' =
     Inr ([dispute_D2_unavailable], [[dispute_D2_unavailable]])
   \<and> identifyPotentialDisputes reads_unavailable [dispute_D2_unavailable] [alloc_D2] 105
       ''eip155:1'' =
     Inr ([dispute_D2_unavailable], [[dispute_D2_unavailable]])"
  using run_unavailable rerun_unavailable by simp

text \<open>
  Claim C5, amended. When a run of \<^verbatim>\<open>identifyPotentialDisputes\<close> returns and
  every row the table then holds for a disputable allocation on this network has
  status \<open>''potential''\<close> or \<open>''valid''\<close> and a closing epoch that is not before the
  disputable epoch, a second run with the same allocations and epoch on that table
  finds no new disputable allocation, leaves the table as it is and issues no call
  of \<^verbatim>\<open>storePoiDisputes\<close>. (A row with status \<open>''reference_unavailable''\<close> is not
  among the already processed disputes, and its allocation is classified and stored
  again.)
\<close>

theorem identifyPotentialDisputes_idempotent:
  assumes run: "identifyPotentialDisputes reads table allocs e net = Inr (table', calls)"
    and rows: "\<forall>d\<in>set table'.
        protocolNetwork_dispute d = net \<and> allocationID d \<in> id_al ` set allocs \<longrightarrow>
        (status d = ''potential'' \<or> status d = ''valid'') \<and> closedEpoch d \<ge> e"
  shows "newDisputableAllocations table' allocs e net = []
     \<and> identifyPotentialDisputes reads table' allocs e net = Inr (table', [])"
proof -
  have "a \<notin> set (newDisputableAllocations table' allocs e net)" for a
  proof (cases "a \<in> set allocs")
    case False
    then show ?thesis by (simp add: newDisputableAllocations_iff)
  next
    case True
    from identifyPotentialDisputes_covers [OF run True]
    obtain d where d: "d \<in> set table'" "allocationID d = id_al a" "protocolNetwork_dispute d = net"
      by (auto simp: dispute_key_def)
    with rows True have "(status d = ''potential'' \<or> status d = ''valid'') \<and> closedEpoch d \<ge> e"
      by (metis image_eqI)
    with d have "d \<in> set (alreadyProcessed table' e net)"
      by (simp add: set_alreadyProcessed)
    with d(2) have "id_al a \<in> allocationID ` set (alreadyProcessed table' e net)"
      by (metis image_eqI)
    then show ?thesis by (simp add: newDisputableAllocations_iff)
  qed
  then have "newDisputableAllocations table' allocs e net = []"
    by (meson last_in_set)
  then show ?thesis by (simp add: identifyPotentialDisputes_def)
qed

text \<open>With the reference POIs available, the first run stores the dispute of
  \<open>alloc_D2\<close> as valid, and the second run stores nothing.\<close>

theorem identifyPotentialDisputes_idempotent_witness:
  "identifyPotentialDisputes reads_available [] [alloc_D2] 105 ''eip155:1'' =
     Inr ([dispute_D2_valid], [[dispute_D2_valid]])
   \<and> identifyPotentialDisputes reads_available [dispute_D2_valid] [alloc_D2] 105 ''eip155:1'' =
     Inr ([dispute_D2_valid], [])"
proof -
  have "\<forall>d\<in>set [dispute_D2_valid].
        protocolNetwork_dispute d = ''eip155:1'' \<and> allocationID d \<in> id_al ` set [alloc_D2] \<longrightarrow>
        (status d = ''potential'' \<or> status d = ''valid'') \<and> closedEpoch d \<ge> 105"
    by (simp add: dispute_D2_valid_def)
  from identifyPotentialDisputes_idempotent [OF run_available this] run_available
  show ?thesis by simp
qed

end
